theory Spec2Isabelle
  imports Complex_Main "HOL-Library.Word"
begin

section \<open>Real-time detector: src/utils/AudioProcessor.js\<close>

text \<open>
  JavaScript numbers are IEEE 754 doubles. The model keeps them as \<^typ>\<open>real\<close> and rounds
  where the source's rounding can decide a branch: \<open>double x\<close> is the double nearest to
  \<open>x\<close> (ties to the even significand, subnormals included). The band energy, the
  thresholds, the frequency indices and the products compared in the transient test and
  in the overlap test are computed this way, operation by operation. The arithmetic of the
  sustained confidence (mean, variance with \<^verbatim>\<open>Math.pow\<close>, the clamp), the returned
  constants and the damped confidence are kept in exact reals: they feed no comparison of
  the source but the maximum of the drums group.

  The entries of the \<^verbatim>\<open>Uint8Array\<close> are bytes, \<^typ>\<open>8 word\<close>; a sum of fewer than
  \<open>2^45\<close> bytes is exact in doubles, and the model adds them exactly. A frequency index
  can be infinite or \<^verbatim>\<open>NaN\<close> (a zero sample rate, an overflow), and the loop is
  modelled for each case. Where the source reads outside the typed array it adds
  \<^verbatim>\<open>undefined\<close> and the energy becomes \<^verbatim>\<open>NaN\<close>; the model's energies are the
  finite ones, so it stops there with \<open>NonFinite\<close>, and the properties below are stated
  for the calls whose reads stay inside the array (from \<^verbatim>\<open>getInstrumentEnergy\<close>, whose
  frame has \<^verbatim>\<open>bufferLength\<close> entries, all of them do). Where the source throws a
  \<^verbatim>\<open>TypeError\<close> (a property of \<^verbatim>\<open>undefined\<close> or \<^verbatim>\<open>null\<close>) the model stops
  with \<open>TypeError\<close>, and where its loop never ends, with \<open>Diverges\<close>.
\<close>

datatype fault = TypeError | NonFinite | Diverges

subsection \<open>Double precision\<close>

text \<open>
  Rounding to the nearest double. A real \<open>x\<close> with \<open>2^e \<le> |x| < 2^(e+1)\<close> lies between
  doubles that are \<open>2^(e-52)\<close> apart; below \<open>2^(-1022)\<close> (the subnormals) the spacing
  stays \<open>2^(-1074)\<close>. \<open>binade x\<close> is that \<open>e\<close>, found by counting up from \<open>-1022\<close>
  and at most \<open>1023\<close>. A value that rounds to \<open>2^1024\<close> or beyond is
  \<^verbatim>\<open>Infinity\<close> in the source.
\<close>

definition roundTiesToEven :: "real \<Rightarrow> int" where
  "roundTiesToEven r =
     (let f = \<lfloor>r\<rfloor>; d = r - of_int f
      in if d < 1/2 then f else if 1/2 < d then f + 1 else if even f then f else f + 1)"

fun binadeFrom :: "nat \<Rightarrow> int \<Rightarrow> real \<Rightarrow> int" where
  "binadeFrom 0 e a = e"
| "binadeFrom (Suc n) e a = (if a < 2 powi (e + 1) then e else binadeFrom n (e + 1) a)"

definition binade :: "real \<Rightarrow> int" where
  "binade x = binadeFrom 2045 (- 1022) \<bar>x\<bar>"

definition ulp :: "real \<Rightarrow> real" where
  "ulp x = 2 powi (binade x - 52)"

definition double :: "real \<Rightarrow> real" where
  "double x = of_int (roundTiesToEven (x / ulp x)) * ulp x"

definition isDouble :: "real \<Rightarrow> bool" where
  "isDouble x = (double x = x \<and> \<bar>x\<bar> < 2 powi 1024)"

text \<open>A number of the source that may not be finite, and the result of an operation.\<close>

datatype 'a JsValue = Finite 'a | PlusInfinity | MinusInfinity | NotANumber

definition toNumber :: "real \<Rightarrow> real JsValue" where
  "toNumber x =
     (if 2 powi 1024 \<le> double x then PlusInfinity
      else if double x \<le> - (2 powi 1024) then MinusInfinity
      else Finite (double x))"


subsection \<open>Configuration and state\<close>

record InstrumentConfig =
  freqRange :: "real \<times> real"
  threshold :: real

text \<open>
  A threshold written \<^verbatim>\<open>0.45\<close> in the source is the double nearest to 0.45.
  The entries of \<^verbatim>\<open>this.instruments\<close>: an instrument with its configuration, or the
  nested \<^verbatim>\<open>drums\<close> object, which has no \<^verbatim>\<open>freqRange\<close> and no \<^verbatim>\<open>threshold\<close>
  of its own.
\<close>

datatype InstrumentEntry =
  Instrument InstrumentConfig
| DrumKit "(string \<times> InstrumentConfig) list"

definition drums :: "(string \<times> InstrumentConfig) list" where
  "drums =
    [(''kick'',  \<lparr>freqRange = (20, 100),   threshold = double (6/10)\<rparr>),
     (''snare'', \<lparr>freqRange = (120, 250),  threshold = double (5/10)\<rparr>),
     (''hihat'', \<lparr>freqRange = (800, 5000), threshold = double (4/10)\<rparr>)]"

definition instruments :: "(string \<times> InstrumentEntry) list" where
  "instruments =
    [(''vocals'', Instrument \<lparr>freqRange = (300, 3500), threshold = double (45/100)\<rparr>),
     (''guitar'', Instrument \<lparr>freqRange = (300, 4000), threshold = double (5/10)\<rparr>),
     (''bass'',   Instrument \<lparr>freqRange = (60, 250),   threshold = double (5/10)\<rparr>),
     (''drums'',  DrumKit drums),
     (''synth'',  Instrument \<lparr>freqRange = (100, 8000), threshold = double (45/100)\<rparr>)]"

record AudioProcessor =
  isInitialized :: bool
  audioContext :: "real option"
  detectionHistory :: "string \<rightharpoonup> real list"

text \<open>
  Of the audio context the model keeps the sample rate; \<open>None\<close> is the \<^verbatim>\<open>null\<close> the
  constructor leaves there until the processor is initialized. The constructor creates one
  empty history per instrument, the three drum components in place of \<^verbatim>\<open>drums\<close>.
\<close>

fun historyKeys :: "(string \<times> InstrumentEntry) list \<Rightarrow> string list" where
  "historyKeys [] = []"
| "historyKeys ((instrument, e) # rest) =
     (if instrument = ''drums'' then [''kick'', ''snare'', ''hihat''] else [instrument])
       @ historyKeys rest"

definition constructor :: "AudioProcessor" where
  "constructor =
     \<lparr>isInitialized = False, audioContext = None,
      detectionHistory =
        foldl (\<lambda>history key. history(key \<mapsto> [])) Map.empty (historyKeys instruments)\<rparr>"

definition initializeWithExistingContext :: "AudioProcessor \<Rightarrow> real \<Rightarrow> AudioProcessor" where
  "initializeWithExistingContext s sampleRate =
     (if isInitialized s then s
      else s\<lparr>audioContext := Some sampleRate, isInitialized := True\<rparr>)"

subsection \<open>Temporal history\<close>

text \<open>
  \<^verbatim>\<open>history.push(energy); if (history.length > 20) history.shift();\<close>
  A missing history is \<^verbatim>\<open>undefined\<close>, and \<^verbatim>\<open>undefined.push\<close> throws.
\<close>

definition updateDetectionHistory ::
  "AudioProcessor \<Rightarrow> string \<Rightarrow> real \<Rightarrow> fault + AudioProcessor" where
  "updateDetectionHistory s instrument energy =
     (case detectionHistory s instrument of
        None \<Rightarrow> Inl TypeError
      | Some history \<Rightarrow>
          let pushed = history @ [energy];
              kept = (if length pushed > 20 then tl pushed else pushed)
          in Inr (s\<lparr>detectionHistory := (detectionHistory s)(instrument \<mapsto> kept)\<rparr>))"

text \<open>Successive ticks of one band: the pushes of a list of energies, oldest first.\<close>

fun pushAll :: "AudioProcessor \<Rightarrow> string \<Rightarrow> real list \<Rightarrow> fault + AudioProcessor" where
  "pushAll s instrument [] = Inr s"
| "pushAll s instrument (e # es) =
     (case updateDetectionHistory s instrument e of
        Inl err \<Rightarrow> Inl err
      | Inr s' \<Rightarrow> pushAll s' instrument es)"

text \<open>The last \<open>n\<close> entries of a list, as \<^verbatim>\<open>slice(-n)\<close> gives them.\<close>

definition slice_last :: "nat \<Rightarrow> 'a list \<Rightarrow> 'a list" where
  "slice_last n xs = drop (length xs - n) xs"

subsection \<open>Band energy\<close>

text \<open>A read of the typed array: \<^verbatim>\<open>undefined\<close> outside its bounds.\<close>

definition readByte :: "8 word list \<Rightarrow> int \<Rightarrow> 8 word option" where
  "readByte dataArray i =
     (if 0 \<le> i \<and> i < int (length dataArray) then Some (dataArray ! nat i) else None)"

text \<open>
  \<^verbatim>\<open>for (let i = lowIndex; i < highIndex && i < bufferLength; i++) { total += dataArray[i]; count++; }\<close>
  Adding \<^verbatim>\<open>undefined\<close> makes the total \<^verbatim>\<open>NaN\<close>.
\<close>

function sumRange ::
  "8 word list \<Rightarrow> int \<Rightarrow> int \<Rightarrow> int \<Rightarrow> real \<Rightarrow> nat \<Rightarrow> fault + real \<times> nat" where
  "sumRange dataArray highIndex bufferLength i tot count =
     (if i < highIndex \<and> i < bufferLength then
        (case readByte dataArray i of
           None \<Rightarrow> Inl NonFinite
         | Some b \<Rightarrow>
             sumRange dataArray highIndex bufferLength (i + 1) (tot + real (unat b)) (count + 1))
      else Inr (tot, count))"
  by pat_completeness auto
termination
  by (relation "measure (\<lambda>(dataArray, highIndex, bufferLength, i, tot, count).
        nat (min highIndex bufferLength - i))") auto

subsection \<open>Detection results\<close>

datatype DetectionResult =
  DetectionResult
    (energy: real)
    (active: bool)
    (confidence: real)
    (components: "(string \<times> DetectionResult) list option")

definition isPercussion :: "string \<Rightarrow> bool" where
  "isPercussion instrument = (instrument \<in> set [''kick'', ''snare'', ''hihat''])"

text \<open>
  \<^verbatim>\<open>recentValues.some((val, i, arr) => i > 0 && val > arr[i-1] * 1.5)\<close>:
  the product is a double.
\<close>

definition hasTransient :: "real list \<Rightarrow> bool" where
  "hasTransient arr =
     list_ex (\<lambda>i. i > 0 \<and> arr ! i > double (arr ! (i - 1) * (3/2))) [0..<length arr]"

definition getDetectionConfidence :: "AudioProcessor \<Rightarrow> string \<Rightarrow> fault + real" where
  "getDetectionConfidence s instrument =
     (case detectionHistory s instrument of
        None \<Rightarrow> Inl TypeError
      | Some history \<Rightarrow>
          if length history < 5 then Inr (5/10)
          else
            let recentValues = slice_last 5 history;
                mean = foldl (\<lambda>sum val. sum + val) 0 recentValues / real (length recentValues)
            in if isPercussion instrument then
                 Inr (if hasTransient recentValues then 8/10 else 4/10)
               else
                 let variance =
                       foldl (\<lambda>sum val. sum + (val - mean)\<^sup>2) 0 recentValues
                         / real (length recentValues)
                 in Inr (min (9/10) (max (3/10) (7/10 - variance * 5))))"

text \<open>
  The threshold of \<^verbatim>\<open>processInstrumentData\<close>: the drum component's for the three
  percussion names, \<^verbatim>\<open>this.instruments[instrument].threshold\<close> otherwise, which is
  \<^verbatim>\<open>undefined\<close> (\<open>None\<close>) for the nested \<^verbatim>\<open>drums\<close> object and throws for a name
  that is not configured.
\<close>

definition lookupThreshold :: "string \<Rightarrow> fault + real option" where
  "lookupThreshold instrument =
     (if isPercussion instrument then
        (case map_of drums instrument of
           None \<Rightarrow> Inl TypeError
         | Some cfg \<Rightarrow> Inr (Some (threshold cfg)))
      else
        (case map_of instruments instrument of
           None \<Rightarrow> Inl TypeError
         | Some (Instrument cfg) \<Rightarrow> Inr (Some (threshold cfg))
         | Some (DrumKit kit) \<Rightarrow> Inr None))"

text \<open>
  \<^verbatim>\<open>Math.floor(freq / (this.audioContext.sampleRate / 2) * bufferLength)\<close>, one rounding
  per operation. Halving the sample rate cannot overflow. A division by zero gives an
  infinity, or \<^verbatim>\<open>NaN\<close> for \<^verbatim>\<open>0 / 0\<close>; the zero has the sign of the sample rate.
  An infinity times zero is \<^verbatim>\<open>NaN\<close>. The bin count \<^verbatim>\<open>bufferLength\<close> is an integer
  that a double holds exactly.
\<close>

definition freqIndex :: "real \<Rightarrow> real \<Rightarrow> int \<Rightarrow> int JsValue" where
  "freqIndex freq sampleRate bufferLength =
     (let half = double (sampleRate / 2);
          quotient =
            (if half = 0 then
               (if freq = 0 then NotANumber
                else if (0 < freq) = (0 \<le> sampleRate) then PlusInfinity
                else MinusInfinity)
             else toNumber (freq / half));
          product =
            (case quotient of
               Finite q \<Rightarrow> toNumber (q * of_int bufferLength)
             | PlusInfinity \<Rightarrow>
                 (if 0 < bufferLength then PlusInfinity
                  else if bufferLength < 0 then MinusInfinity
                  else NotANumber)
             | MinusInfinity \<Rightarrow>
                 (if 0 < bufferLength then MinusInfinity
                  else if bufferLength < 0 then PlusInfinity
                  else NotANumber)
             | NotANumber \<Rightarrow> NotANumber)
      in (case product of
            Finite p \<Rightarrow> Finite \<lfloor>p\<rfloor>
          | PlusInfinity \<Rightarrow> PlusInfinity
          | MinusInfinity \<Rightarrow> MinusInfinity
          | NotANumber \<Rightarrow> NotANumber))"

text \<open>
  The loop from \<^verbatim>\<open>lowIndex\<close>. A comparison with \<^verbatim>\<open>NaN\<close> is false, so the loop is
  skipped when \<^verbatim>\<open>lowIndex\<close> is \<^verbatim>\<open>NaN\<close> or \<^verbatim>\<open>Infinity\<close>, or
  \<^verbatim>\<open>highIndex\<close> is \<^verbatim>\<open>NaN\<close> or \<^verbatim>\<open>-Infinity\<close>. With \<^verbatim>\<open>highIndex\<close> infinite
  only \<^verbatim>\<open>i < bufferLength\<close> ends it. From \<^verbatim>\<open>-Infinity\<close> the increment changes
  nothing and the loop, once entered, never ends.
\<close>

definition sumIndices ::
  "8 word list \<Rightarrow> int JsValue \<Rightarrow> int JsValue \<Rightarrow> int \<Rightarrow> fault + real \<times> nat" where
  "sumIndices dataArray lowIndex highIndex bufferLength =
     (case lowIndex of
        Finite lo \<Rightarrow>
          (case highIndex of
             Finite hi \<Rightarrow> sumRange dataArray hi bufferLength lo 0 0
           | PlusInfinity \<Rightarrow> sumRange dataArray bufferLength bufferLength lo 0 0
           | MinusInfinity \<Rightarrow> Inr (0, 0)
           | NotANumber \<Rightarrow> Inr (0, 0))
      | PlusInfinity \<Rightarrow> Inr (0, 0)
      | MinusInfinity \<Rightarrow>
          (case highIndex of
             Finite hi \<Rightarrow> Inl Diverges
           | PlusInfinity \<Rightarrow> Inl Diverges
           | MinusInfinity \<Rightarrow> Inr (0, 0)
           | NotANumber \<Rightarrow> Inr (0, 0))
      | NotANumber \<Rightarrow> Inr (0, 0))"

definition processInstrumentData ::
  "AudioProcessor \<Rightarrow> string \<Rightarrow> 8 word list \<Rightarrow> int \<Rightarrow> real \<times> real
     \<Rightarrow> fault + AudioProcessor \<times> DetectionResult" where
  "processInstrumentData s instrument dataArray bufferLength band =
     (case band of (lowFreq, highFreq) \<Rightarrow>
       (case audioContext s of
          None \<Rightarrow> Inl TypeError
        | Some sampleRate \<Rightarrow>
           (let lowIndex = freqIndex lowFreq sampleRate bufferLength;
                highIndex = freqIndex highFreq sampleRate bufferLength
            in (case sumIndices dataArray lowIndex highIndex bufferLength of
                  Inl err \<Rightarrow> Inl err
                | Inr (tot, count) \<Rightarrow>
                   (let rawEnergy =
                          (if count > 0 then double (double (tot / real count) / 255) else 0)
                    in (case updateDetectionHistory s instrument rawEnergy of
                          Inl err \<Rightarrow> Inl err
                        | Inr s' \<Rightarrow>
                           (case lookupThreshold instrument of
                              Inl err \<Rightarrow> Inl err
                            | Inr thr \<Rightarrow>
                               (case getDetectionConfidence s' instrument of
                                  Inl err \<Rightarrow> Inl err
                                | Inr c \<Rightarrow>
                                    Inr (s', DetectionResult rawEnergy
                                               (case thr of None \<Rightarrow> False
                                                          | Some t \<Rightarrow> rawEnergy > t)
                                               c None)))))))))"

subsection \<open>Overlaps and the drums group\<close>

definition processOverlaps ::
  "(string \<rightharpoonup> DetectionResult) \<Rightarrow> (string \<rightharpoonup> DetectionResult)" where
  "processOverlaps result =
     (let result1 =
            (case (result ''bass'', result ''guitar'') of
               (Some bass, Some guitar) \<Rightarrow>
                 if active bass \<and> active guitar \<and> energy bass > double (energy guitar * double (12/10))
                 then result(''guitar'' \<mapsto>
                        DetectionResult (energy guitar) (active guitar)
                          (confidence guitar * (7/10)) (components guitar))
                 else result
             | _ \<Rightarrow> result)
      in case (result1 ''kick'', result1 ''snare'', result1 ''hihat'') of
           (Some kick, Some snare, Some hihat) \<Rightarrow>
             result1(''drums'' \<mapsto>
               DetectionResult
                 (max (energy kick) (max (energy snare) (energy hihat)))
                 (active kick \<or> active snare \<or> active hihat)
                 (max (confidence kick) (max (confidence snare) (confidence hihat)))
                 (Some [(''kick'', kick), (''snare'', snare), (''hihat'', hihat)]))
         | _ \<Rightarrow> result1)"

subsection \<open>One tick\<close>

fun processDrums ::
  "AudioProcessor \<Rightarrow> 8 word list \<Rightarrow> int \<Rightarrow> (string \<times> InstrumentConfig) list
     \<Rightarrow> (string \<rightharpoonup> DetectionResult)
     \<Rightarrow> fault + AudioProcessor \<times> (string \<rightharpoonup> DetectionResult)" where
  "processDrums s dataArray bufferLength [] result = Inr (s, result)"
| "processDrums s dataArray bufferLength ((drumType, cfg) # rest) result =
     (case processInstrumentData s drumType dataArray bufferLength (freqRange cfg) of
        Inl err \<Rightarrow> Inl err
      | Inr (s', r) \<Rightarrow> processDrums s' dataArray bufferLength rest (result(drumType \<mapsto> r)))"

fun processInstruments ::
  "AudioProcessor \<Rightarrow> 8 word list \<Rightarrow> int \<Rightarrow> (string \<times> InstrumentEntry) list
     \<Rightarrow> (string \<rightharpoonup> DetectionResult)
     \<Rightarrow> fault + AudioProcessor \<times> (string \<rightharpoonup> DetectionResult)" where
  "processInstruments s dataArray bufferLength [] result = Inr (s, result)"
| "processInstruments s dataArray bufferLength ((instrument, entry) # rest) result =
     (if instrument = ''drums'' then
        (case processDrums s dataArray bufferLength drums result of
           Inl err \<Rightarrow> Inl err
         | Inr (s', result') \<Rightarrow> processInstruments s' dataArray bufferLength rest result')
      else
        (case entry of
           DrumKit kit \<Rightarrow> Inl TypeError
         | Instrument cfg \<Rightarrow>
             (case processInstrumentData s instrument dataArray bufferLength (freqRange cfg) of
                Inl err \<Rightarrow> Inl err
              | Inr (s', r) \<Rightarrow>
                  processInstruments s' dataArray bufferLength rest (result(instrument \<mapsto> r)))))"

text \<open>
  \<^verbatim>\<open>getInstrumentEnergy\<close>: the frame is the analyser's byte frequency data, a
  \<^verbatim>\<open>Uint8Array\<close> allocated with the analyser's \<^verbatim>\<open>frequencyBinCount\<close>, so
  \<^verbatim>\<open>bufferLength\<close> is its length.
\<close>

definition getInstrumentEnergy ::
  "AudioProcessor \<Rightarrow> 8 word list
     \<Rightarrow> fault + AudioProcessor \<times> (string \<rightharpoonup> DetectionResult)" where
  "getInstrumentEnergy s frame =
     (if \<not> isInitialized s then Inr (s, Map.empty)
      else
        let bufferLength = int (length frame);
            dataArray = frame
        in case processInstruments s dataArray bufferLength instruments Map.empty of
             Inl err \<Rightarrow> Inl err
           | Inr (s', result) \<Rightarrow> Inr (s', processOverlaps result))"

text \<open>
  The animation loop calls \<^verbatim>\<open>getInstrumentEnergy\<close> once per frame: a run of ticks over
  the analyser's successive frames, collecting each tick's result.
\<close>

fun ticks ::
  "AudioProcessor \<Rightarrow> 8 word list list
     \<Rightarrow> fault + AudioProcessor \<times> (string \<rightharpoonup> DetectionResult) list" where
  "ticks s [] = Inr (s, [])"
| "ticks s (frame # frames) =
     (case getInstrumentEnergy s frame of
        Inl err \<Rightarrow> Inl err
      | Inr (s', result) \<Rightarrow>
          (case ticks s' frames of
             Inl err \<Rightarrow> Inl err
           | Inr (s'', results) \<Rightarrow> Inr (s'', result # results)))"

subsection \<open>Reference notions and example states\<close>



text \<open>
  The indices the loop visits, from the first up to but not including the second, for each
  kind of bound; and the average the specification asks for over such a range: the
  magnitudes divided by their number and by 255, in doubles, and 0 for an empty range.
\<close>

definition loopRange :: "int JsValue \<Rightarrow> int JsValue \<Rightarrow> int \<Rightarrow> nat \<times> nat" where
  "loopRange lowIndex highIndex bufferLength =
     (case lowIndex of
        Finite lo \<Rightarrow>
          (case highIndex of
             Finite hi \<Rightarrow> (nat lo, nat (min hi bufferLength))
           | PlusInfinity \<Rightarrow> (nat lo, nat bufferLength)
           | MinusInfinity \<Rightarrow> (0, 0)
           | NotANumber \<Rightarrow> (0, 0))
      | PlusInfinity \<Rightarrow> (0, 0)
      | MinusInfinity \<Rightarrow> (0, 0)
      | NotANumber \<Rightarrow> (0, 0))"

definition bandAverage :: "8 word list \<Rightarrow> nat \<Rightarrow> nat \<Rightarrow> real" where
  "bandAverage dataArray lo hi =
     (if lo < hi
      then double (double ((\<Sum>k\<leftarrow>[lo..<hi]. real (unat (dataArray ! k))) / real (hi - lo)) / 255)
      else 0)"

text \<open>
  The seven configured bands and each band's own activity threshold, as the configuration
  lists them.
\<close>

definition bandNames :: "string list" where
  "bandNames = [''vocals'', ''guitar'', ''bass'', ''kick'', ''snare'', ''hihat'', ''synth'']"

definition activityThresholds :: "(string \<times> real) list" where
  "activityThresholds =
     [(''vocals'', double (45/100)), (''guitar'', double (5/10)), (''bass'', double (5/10)),
      (''kick'', double (6/10)), (''snare'', double (5/10)), (''hihat'', double (4/10)),
      (''synth'', double (45/100))]"

text \<open>
  For the proofs about a tick: a processor that has a positive sample rate and a history
  for every band; a result that agrees with its band's threshold; the result keys one entry
  of the configuration contributes.
\<close>

definition ready :: "AudioProcessor \<Rightarrow> bool" where
  "ready s =
     ((case audioContext s of None \<Rightarrow> False | Some sampleRate \<Rightarrow> 0 < sampleRate) \<and>
      list_all (\<lambda>name. detectionHistory s name \<noteq> None) bandNames)"

definition thresholded :: "string \<Rightarrow> DetectionResult \<Rightarrow> bool" where
  "thresholded name r =
     (case map_of activityThresholds name of
        None \<Rightarrow> False
      | Some t \<Rightarrow> active r = (energy r > t))"

fun entryKeys :: "string \<times> InstrumentEntry \<Rightarrow> string set" where
  "entryKeys (name, e) = (if name = ''drums'' then fst ` set drums else {name})"

text \<open>A processor whose history for one band has been set, for concrete examples.\<close>

definition withHistory :: "AudioProcessor \<Rightarrow> string \<Rightarrow> real list \<Rightarrow> AudioProcessor" where
  "withHistory s instrument h = s\<lparr>detectionHistory := (detectionHistory s)(instrument \<mapsto> h)\<rparr>"

text \<open>
  The first step of \<^verbatim>\<open>processOverlaps\<close> on its own (the bass and guitar check), named
  for the proofs.
\<close>

definition suppressed :: "(string \<rightharpoonup> DetectionResult) \<Rightarrow> (string \<rightharpoonup> DetectionResult)" where
  "suppressed result =
     (case (result ''bass'', result ''guitar'') of
        (Some bass, Some guitar) \<Rightarrow>
          if active bass \<and> active guitar \<and> energy bass > double (energy guitar * double (12/10))
          then result(''guitar'' \<mapsto>
                 DetectionResult (energy guitar) (active guitar)
                   (confidence guitar * (7/10)) (components guitar))
          else result
      | _ \<Rightarrow> result)"

text \<open>A frame of 16 bins and a processor initialized at 48 kHz, for concrete examples.\<close>

definition frame16 :: "8 word list" where
  "frame16 = [255, 0, 128, 64, 32, 16, 8, 4, 2, 1, 0, 0, 0, 0, 0, 0]"

definition playing :: AudioProcessor where
  "playing = initializeWithExistingContext constructor 48000"

text \<open>Per-tick results for concrete examples.\<close>

definition bassOver :: "string \<rightharpoonup> DetectionResult" where
  "bassOver = [''bass'' \<mapsto> DetectionResult (7/8) True (1/2) None,
               ''guitar'' \<mapsto> DetectionResult (5/8) True (1/2) None]"

definition guitarOver :: "string \<rightharpoonup> DetectionResult" where
  "guitarOver = [''bass'' \<mapsto> DetectionResult (5/8) True (1/2) None,
                 ''guitar'' \<mapsto> DetectionResult (7/8) True (1/2) None]"

definition drumTick :: "string \<rightharpoonup> DetectionResult" where
  "drumTick = [''kick'' \<mapsto> DetectionResult (3/4) True (4/5) None,
               ''snare'' \<mapsto> DetectionResult (1/4) False (2/5) None,
               ''hihat'' \<mapsto> DetectionResult (1/2) True (2/5) None]"

section \<open>Batch classifier: server/audioProcessor.js\<close>

record BandAnalysis =
  band_range :: "real \<times> real"
  band_energy :: real
  significance :: real

record InstrumentDetection =
  detected :: bool
  detection_confidence :: real

text \<open>
  \<^verbatim>\<open>frequencyBands.<name>.energy\<close>: a missing band is \<^verbatim>\<open>undefined\<close>, whose
  \<^verbatim>\<open>energy\<close> throws.
\<close>

definition bandEnergy :: "(string \<rightharpoonup> BandAnalysis) \<Rightarrow> string \<Rightarrow> fault + real" where
  "bandEnergy frequencyBands name =
     (case frequencyBands name of None \<Rightarrow> Inl TypeError | Some b \<Rightarrow> Inr (band_energy b))"

text \<open>The \<^verbatim>\<open>detection\<close> object as \<^verbatim>\<open>detectInstruments\<close> first builds it.\<close>

definition initialDetection :: "string \<rightharpoonup> InstrumentDetection" where
  "initialDetection =
     [''vocals'' \<mapsto> \<lparr>detected = False, detection_confidence = 0\<rparr>,
      ''guitar'' \<mapsto> \<lparr>detected = False, detection_confidence = 0\<rparr>,
      ''bass''   \<mapsto> \<lparr>detected = False, detection_confidence = 0\<rparr>,
      ''drums''  \<mapsto> \<lparr>detected = False, detection_confidence = 0\<rparr>,
      ''synth''  \<mapsto> \<lparr>detected = False, detection_confidence = 0\<rparr>,
      ''piano''  \<mapsto> \<lparr>detected = False, detection_confidence = 0\<rparr>]"

text \<open>
  The rules in the source's order; each assignment pair
  \<^verbatim>\<open>detection.x.detected = true; detection.x.confidence = ...\<close> replaces the entry. The
  \<^verbatim>\<open>stems\<close> argument is not read.
\<close>

definition detectInstruments ::
  "(string \<rightharpoonup> BandAnalysis) \<Rightarrow> (string \<rightharpoonup> string) option
     \<Rightarrow> fault + (string \<rightharpoonup> InstrumentDetection)" where
  "detectInstruments frequencyBands stems =
     (case bandEnergy frequencyBands ''bass'' of Inl err \<Rightarrow> Inl err | Inr bassE \<Rightarrow>
     (let d1 = (if bassE > 6/10
                then initialDetection(''bass'' \<mapsto>
                       \<lparr>detected = True, detection_confidence = bassE\<rparr>)
                else initialDetection)
      in
     (case bandEnergy frequencyBands ''sub_bass'' of Inl err \<Rightarrow> Inl err | Inr subBassE \<Rightarrow>
     (case bandEnergy frequencyBands ''highs'' of Inl err \<Rightarrow> Inl err | Inr highsE \<Rightarrow>
     (let d2 = (if subBassE > 6/10 \<or> highsE > 7/10
                then d1(''drums'' \<mapsto>
                       \<lparr>detected = True, detection_confidence = max subBassE highsE\<rparr>)
                else d1)
      in
     (case bandEnergy frequencyBands ''mids'' of Inl err \<Rightarrow> Inl err | Inr midsE \<Rightarrow>
     (let d3 = (if midsE > 7/10
                then d2(''vocals'' \<mapsto>
                       \<lparr>detected = True, detection_confidence = midsE\<rparr>)
                else d2)
      in
     (case bandEnergy frequencyBands ''low_mids'' of Inl err \<Rightarrow> Inl err | Inr lowMidsE \<Rightarrow>
     (let d4 = (if lowMidsE > 6/10 \<and> midsE > 5/10
                then d3(''guitar'' \<mapsto>
                       \<lparr>detected = True, detection_confidence = (lowMidsE + midsE) / 2\<rparr>)
                else d3)
      in
     (case bandEnergy frequencyBands ''high_mids'' of Inl err \<Rightarrow> Inl err | Inr highMidsE \<Rightarrow>
     (let d5 = (if highMidsE > 7/10 \<and> highsE > 6/10
                then d4(''synth'' \<mapsto>
                       \<lparr>detected = True, detection_confidence = (highMidsE + highsE) / 2\<rparr>)
                else d4)
      in Inr d5)))))))))))"

text \<open>
  The result of \<^verbatim>\<open>analyzeFrequencyBands\<close> for six given energies, for concrete examples.
\<close>

definition sixBands :: "real \<Rightarrow> real \<Rightarrow> real \<Rightarrow> real \<Rightarrow> real \<Rightarrow> real \<Rightarrow> (string \<rightharpoonup> BandAnalysis)" where
  "sixBands sb b lm m hm h =
     [''sub_bass''  \<mapsto> \<lparr>band_range = (20, 60), band_energy = sb, significance = 1/2\<rparr>,
      ''bass''      \<mapsto> \<lparr>band_range = (60, 250), band_energy = b, significance = 1/2\<rparr>,
      ''low_mids''  \<mapsto> \<lparr>band_range = (250, 500), band_energy = lm, significance = 1/2\<rparr>,
      ''mids''      \<mapsto> \<lparr>band_range = (500, 2000), band_energy = m, significance = 1/2\<rparr>,
      ''high_mids'' \<mapsto> \<lparr>band_range = (2000, 4000), band_energy = hm, significance = 1/2\<rparr>,
      ''highs''     \<mapsto> \<lparr>band_range = (4000, 20000), band_energy = h, significance = 1/2\<rparr>]"


section \<open>Properties\<close>

subsection \<open>Double precision\<close>

lemma roundTiesToEven_bounds: "\<lfloor>r\<rfloor> \<le> roundTiesToEven r" "roundTiesToEven r \<le> \<lceil>r\<rceil>"
proof -
  show "\<lfloor>r\<rfloor> \<le> roundTiesToEven r"
    by (simp add: roundTiesToEven_def Let_def)
  have "\<lfloor>r\<rfloor> + 1 \<le> \<lceil>r\<rceil>" if "r - of_int \<lfloor>r\<rfloor> \<noteq> 0"
    using that by (smt (verit) ceiling_altdef of_int_floor_cancel)
  then show "roundTiesToEven r \<le> \<lceil>r\<rceil>"
    by (auto simp: roundTiesToEven_def Let_def intro: floor_le_ceiling)
qed

lemma roundTiesToEven_of_int [simp]: "roundTiesToEven (of_int k) = k"
  by (simp add: roundTiesToEven_def)

lemma pow2_mono: "e \<le> f \<Longrightarrow> (2::real) powi e \<le> 2 powi f"
  by (rule power_int_increasing) simp_all

lemma pow2_strict_mono: "e < f \<Longrightarrow> (2::real) powi e < 2 powi f"
  by (rule power_int_strict_increasing) simp_all

lemma binadeFrom_range: "e \<le> binadeFrom n e a \<and> binadeFrom n e a \<le> e + int n"
proof (induction n arbitrary: e)
  case 0
  then show ?case by simp
next
  case (Suc n)
  from Suc [of "e + 1"] show ?case by simp
qed

lemma binadeFrom_upper: "binadeFrom n e a < e + int n \<Longrightarrow> a < 2 powi (binadeFrom n e a + 1)"
proof (induction n arbitrary: e)
  case 0
  then show ?case by simp
next
  case (Suc n)
  then show ?case by (cases "a < 2 powi (e + 1)") simp_all
qed

lemma binadeFrom_lower: "e < binadeFrom n e a \<Longrightarrow> 2 powi (binadeFrom n e a) \<le> a"
proof (induction n arbitrary: e)
  case 0
  then show ?case by simp
next
  case (Suc n)
  show ?case
  proof (cases "a < 2 powi (e + 1)")
    case True
    with Suc.prems show ?thesis by simp
  next
    case False
    show ?thesis
    proof (cases "e + 1 < binadeFrom n (e + 1) a")
      case True
      with Suc.IH [of "e + 1"] False show ?thesis by simp
    next
      case b: False
      with binadeFrom_range [of "e + 1" n a] have "binadeFrom n (e + 1) a = e + 1" by simp
      with False show ?thesis by simp
    qed
  qed
qed

lemma binade_range: "- 1022 \<le> binade x" "binade x \<le> 1023"
  using binadeFrom_range [of "- 1022" 2045 "\<bar>x\<bar>"] by (simp_all add: binade_def)

lemma binade_lower: "- 1022 < binade x \<Longrightarrow> 2 powi (binade x) \<le> \<bar>x\<bar>"
  unfolding binade_def by (rule binadeFrom_lower)

lemma binade_upper: "binade x < 1023 \<Longrightarrow> \<bar>x\<bar> < 2 powi (binade x + 1)"
  unfolding binade_def by (rule binadeFrom_upper) simp

lemma binade_mono:
  assumes "\<bar>x\<bar> \<le> \<bar>y\<bar>"
  shows "binade x \<le> binade y"
proof (rule ccontr)
  assume "\<not> binade x \<le> binade y"
  then have lt: "binade y < binade x" by simp
  with binade_range(1) [of y] have "- 1022 < binade x" by simp
  then have "2 powi (binade x) \<le> \<bar>x\<bar>" by (rule binade_lower)
  moreover from lt binade_range(2) [of x] have "binade y < 1023" by simp
  then have "\<bar>y\<bar> < 2 powi (binade y + 1)" by (rule binade_upper)
  moreover from lt have "(2::real) powi (binade y + 1) \<le> 2 powi (binade x)"
    by (intro pow2_mono) simp
  ultimately show False using assms by simp
qed

lemma binade_eqI:
  assumes "- 1022 \<le> e" and "e \<le> 1023"
    and "e = - 1022 \<or> 2 powi e \<le> \<bar>x\<bar>"
    and "e = 1023 \<or> \<bar>x\<bar> < 2 powi (e + 1)"
  shows "binade x = e"
proof (rule antisym)
  show "binade x \<le> e"
  proof (rule ccontr)
    assume "\<not> binade x \<le> e"
    then have lt: "e < binade x" by simp
    with assms(1) have "2 powi (binade x) \<le> \<bar>x\<bar>" by (intro binade_lower) simp
    moreover from lt binade_range(2) [of x] assms(4) have "\<bar>x\<bar> < 2 powi (e + 1)" by auto
    moreover from lt have "(2::real) powi (e + 1) \<le> 2 powi (binade x)"
      by (intro pow2_mono) simp
    ultimately show False by simp
  qed
  show "e \<le> binade x"
  proof (rule ccontr)
    assume "\<not> e \<le> binade x"
    then have lt: "binade x < e" by simp
    with assms(2) have "\<bar>x\<bar> < 2 powi (binade x + 1)" by (intro binade_upper) simp
    moreover from lt binade_range(1) [of x] assms(3) have "2 powi e \<le> \<bar>x\<bar>" by auto
    moreover from lt have "(2::real) powi (binade x + 1) \<le> 2 powi e"
      by (intro pow2_mono) simp
    ultimately show False by simp
  qed
qed

lemma ulp_pos: "0 < ulp x"
  by (simp add: ulp_def)

lemma double_eval:
  assumes "- 1022 \<le> e" and "e \<le> 1023"
    and "e = - 1022 \<or> 2 powi e \<le> \<bar>x\<bar>"
    and "e = 1023 \<or> \<bar>x\<bar> < 2 powi (e + 1)"
  shows "double x = of_int (roundTiesToEven (x / 2 powi (e - 52))) * 2 powi (e - 52)"
  using binade_eqI [OF assms] by (simp add: double_def ulp_def)

lemma double_zero [simp]: "double 0 = 0"
  using roundTiesToEven_of_int [of 0] by (simp add: double_def)

lemma double_nonneg: "0 \<le> x \<Longrightarrow> 0 \<le> double x"
proof -
  assume "0 \<le> x"
  then have "0 \<le> x / ulp x" using ulp_pos [of x] by simp
  then have "0 \<le> \<lfloor>x / ulp x\<rfloor>" by simp
  with roundTiesToEven_bounds(1) [of "x / ulp x"] have "0 \<le> roundTiesToEven (x / ulp x)"
    by linarith
  then show ?thesis using ulp_pos [of x] by (simp add: double_def)
qed


lemma pow2_add: "(2::real) powi (a + b) = 2 powi a * 2 powi b"
  by (simp add: power_int_add)

lemma ulp_shift:
  assumes "binade x \<le> binade d"
  shows "ulp d = ulp x * 2 ^ nat (binade d - binade x)"
proof -
  have "(2::real) powi ((binade x - 52) + (binade d - binade x)) =
      2 powi (binade x - 52) * 2 powi (binade d - binade x)"
    by (rule pow2_add)
  moreover have "(2::real) powi (binade d - binade x) = 2 ^ nat (binade d - binade x)"
    using assms by (simp add: power_int_nonneg_exp)
  ultimately show ?thesis by (simp add: ulp_def)
qed

lemma double_le:
  assumes "isDouble d" and "0 \<le> x" and "x \<le> d"
  shows "double x \<le> d"
proof -
  from assms have "binade x \<le> binade d" by (intro binade_mono) simp
  note sh = ulp_shift [OF this]
  define M where "M = roundTiesToEven (d / ulp d) * 2 ^ nat (binade d - binade x)"
  from assms(1) have "d = of_int (roundTiesToEven (d / ulp d)) * ulp d"
    by (simp add: isDouble_def double_def)
  then have d: "d = of_int M * ulp x"
    by (simp add: M_def sh mult.assoc mult.commute)
  with assms(3) ulp_pos [of x] have "x / ulp x \<le> of_int M"
    by (simp add: divide_le_eq)
  then have "\<lceil>x / ulp x\<rceil> \<le> M" by (simp add: ceiling_le_iff)
  with roundTiesToEven_bounds(2) [of "x / ulp x"] have "roundTiesToEven (x / ulp x) \<le> M"
    by linarith
  then have "of_int (roundTiesToEven (x / ulp x)) * ulp x \<le> of_int M * ulp x"
    using ulp_pos [of x] by (simp add: mult_right_mono)
  with d show ?thesis by (simp add: double_def)
qed

lemma double_ge:
  assumes "isDouble d" and "0 \<le> d" and "d \<le> x"
  shows "d \<le> double x"
proof -
  from assms have le: "binade d \<le> binade x" by (intro binade_mono) simp
  have fl: "of_int \<lfloor>x / ulp x\<rfloor> * ulp x \<le> double x"
    using roundTiesToEven_bounds(1) [of "x / ulp x"] ulp_pos [of x]
    by (simp add: double_def mult_right_mono)
  show ?thesis
  proof (cases "binade d = binade x")
    case True
    then have u: "ulp d = ulp x" by (simp add: ulp_def)
    from assms(1) have d: "d = of_int (roundTiesToEven (d / ulp d)) * ulp x"
      by (simp add: isDouble_def double_def u)
    with assms(3) ulp_pos [of x] have "of_int (roundTiesToEven (d / ulp d)) \<le> x / ulp x"
      by (simp add: le_divide_eq)
    then have "roundTiesToEven (d / ulp d) \<le> \<lfloor>x / ulp x\<rfloor>" by (simp add: le_floor_iff)
    then have "of_int (roundTiesToEven (d / ulp d)) * ulp x \<le> of_int \<lfloor>x / ulp x\<rfloor> * ulp x"
      using ulp_pos [of x] by (simp add: mult_right_mono)
    with d fl show ?thesis by linarith
  next
    case False
    with le have lt: "binade d < binade x" by simp
    with binade_range(1) [of d] have "- 1022 < binade x" by simp
    then have x: "2 powi (binade x) \<le> x" using binade_lower [of x] assms by simp
    from lt binade_range(2) [of x] have "binade d < 1023" by simp
    then have "\<bar>d\<bar> < 2 powi (binade d + 1)" by (rule binade_upper)
    moreover from lt have "(2::real) powi (binade d + 1) \<le> 2 powi (binade x)"
      by (intro pow2_mono) simp
    ultimately have dlt: "d < 2 powi (binade x)" by simp
    have "(2::real) powi (binade x) = 2 powi (binade x - 52) * 2 powi 52"
      using pow2_add [of "binade x - 52" 52] by simp
    then have p: "(2::real) powi (binade x) = of_int (2 ^ 52) * ulp x"
      by (simp add: ulp_def)
    with x ulp_pos [of x] have "of_int (2 ^ 52) \<le> x / ulp x"
      by (simp add: le_divide_eq)
    then have "(2::int) ^ 52 \<le> \<lfloor>x / ulp x\<rfloor>" by (simp only: le_floor_iff)
    then have "of_int (2 ^ 52) * ulp x \<le> of_int \<lfloor>x / ulp x\<rfloor> * ulp x"
      using ulp_pos [of x] by (intro mult_right_mono) simp_all
    with p fl dlt show ?thesis by linarith
  qed
qed

lemma isDouble_dyadic:
  assumes "\<bar>m\<bar> < 2 ^ 53" and "k \<le> 1022"
  shows "isDouble (of_int m / 2 ^ k)"
proof (cases "m = 0")
  case True
  then show ?thesis by (simp add: isDouble_def)
next
  case False
  define x :: real where "x = of_int m / 2 ^ k"
  define e where "e = binade x"
  have xpow: "x = of_int m * 2 powi (- int k)"
    by (simp add: x_def power_int_minus field_simps)
  from False have "1 \<le> \<bar>m\<bar>" by simp
  then have "(1::real) \<le> \<bar>of_int m\<bar>" by (metis of_int_1_le_iff of_int_abs)
  have absx: "\<bar>x\<bar> = \<bar>of_int m\<bar> * 2 powi (- int k)"
    by (simp add: xpow abs_mult)
  from assms(1) have "\<bar>of_int m :: real\<bar> < 2 ^ 53"
    by (metis of_int_abs of_int_less_numeral_power_cancel_iff)
  then have "\<bar>x\<bar> < 2 ^ 53 * 2 powi (- int k)" by (simp add: absx)
  also have "\<dots> = 2 powi (53 - int k)"
    using power_int_add [of "2::real" 53 "- int k"] by simp
  finally have up: "\<bar>x\<bar> < 2 powi (53 - int k)" .
  have nonneg: "0 \<le> 52 - e - int k"
  proof (cases "- 1022 < e")
    case True
    then have "2 powi e \<le> \<bar>x\<bar>" unfolding e_def by (rule binade_lower)
    with up have "(2::real) powi e < 2 powi (53 - int k)" by simp
    then have "e < 53 - int k"
      using pow2_mono [of "53 - int k" e] by (cases "e < 53 - int k") auto
    then show ?thesis by simp
  next
    case False
    with binade_range(1) [of x] have "e = - 1022" by (simp add: e_def)
    with assms(2) show ?thesis by simp
  qed
  have "x / ulp x = of_int m * (2 powi (- int k) * 2 powi (52 - e))"
    by (simp add: xpow ulp_def e_def power_int_diff field_simps)
  also have "2 powi (- int k) * 2 powi (52 - e) = (2::real) powi (52 - e - int k)"
    using power_int_add [of "2::real" "- int k" "52 - e"] by (simp add: algebra_simps)
  also have "\<dots> = 2 ^ nat (52 - e - int k)"
    using nonneg by (simp add: power_int_nonneg_exp)
  finally have "x / ulp x = of_int (m * 2 ^ nat (52 - e - int k))" by simp
  then have "roundTiesToEven (x / ulp x) = m * 2 ^ nat (52 - e - int k)"
    by (simp only: roundTiesToEven_of_int)
  then have "double x = (x / ulp x) * ulp x"
    using \<open>x / ulp x = of_int (m * 2 ^ nat (52 - e - int k))\<close> by (simp add: double_def)
  then have "double x = x" using ulp_pos [of x] by simp
  moreover have "\<bar>x\<bar> < 2 powi 1024"
  proof -
    have "(2::real) powi (53 - int k) \<le> 2 powi 1024" by (intro pow2_mono) simp
    with up show ?thesis by linarith
  qed
  ultimately show ?thesis by (simp add: isDouble_def x_def)
qed

lemma double_dyadic:
  assumes "\<bar>m\<bar> < 2 ^ 53" and "k \<le> 1022"
  shows "double (of_int m / 2 ^ k) = of_int m / 2 ^ k"
  using isDouble_dyadic [OF assms] by (simp add: isDouble_def)

lemma isDouble_examples:
  "isDouble 0" "isDouble 1" "isDouble (1/2)" "isDouble (1/4)" "isDouble (3/4)"
  "isDouble (5/4)" "isDouble (5/8)" "isDouble (7/8)" "isDouble (25/32)" "isDouble 255"
  "isDouble (255/2)" "isDouble 24000"
  using isDouble_dyadic [of 0 0] isDouble_dyadic [of 1 0] isDouble_dyadic [of 1 1]
    isDouble_dyadic [of 1 2] isDouble_dyadic [of 3 2] isDouble_dyadic [of 5 2]
    isDouble_dyadic [of 5 3] isDouble_dyadic [of 7 3] isDouble_dyadic [of 25 5]
    isDouble_dyadic [of 255 0] isDouble_dyadic [of 255 1] isDouble_dyadic [of 24000 0]
  by simp_all

lemma double_examples:
  "double 1 = 1" "double (1/2) = 1/2" "double (1/4) = 1/4" "double (3/4) = 3/4"
  "double 255 = 255" "double (255/2) = 255/2" "double 24000 = 24000"
  using isDouble_examples by (simp_all add: isDouble_def)

text \<open>
  Known values: 0.1, a tie that goes to the even significand in either direction, and
  two subnormal cases.
\<close>

lemma double_known:
  "double (1/10) = 3602879701896397 / 2 ^ 55"
  "double (1 + 1 / 2 ^ 53) = 1"
  "double (1 + 3 / 2 ^ 53) = 1 + 2 / 2 ^ 52"
  "double (3 / 2 ^ 1075) = 2 / 2 ^ 1074"
  "double (1 / 2 ^ 1075) = 0"
proof -
  show "double (1/10) = 3602879701896397 / 2 ^ 55"
    using double_eval [of "- 4" "1/10"] by (simp add: roundTiesToEven_def Let_def)
  show "double (1 + 1 / 2 ^ 53) = 1"
    using double_eval [of 0 "1 + 1 / 2 ^ 53"] by (simp add: roundTiesToEven_def Let_def)
  show "double (1 + 3 / 2 ^ 53) = 1 + 2 / 2 ^ 52"
    using double_eval [of 0 "1 + 3 / 2 ^ 53"] by (simp add: roundTiesToEven_def Let_def)
  show "double (3 / 2 ^ 1075) = 2 / 2 ^ 1074"
    using double_eval [of "- 1022" "3 / 2 ^ 1075"] by (simp add: roundTiesToEven_def Let_def)
  show "double (1 / 2 ^ 1075) = 0"
    using double_eval [of "- 1022" "1 / 2 ^ 1075"] by (simp add: roundTiesToEven_def Let_def)
qed

subsection \<open>Temporal history\<close>

lemma slice_last_short: "length xs \<le> n \<Longrightarrow> slice_last n xs = xs"
  by (simp add: slice_last_def)

lemma slice_last_append:
  "slice_last n (slice_last n xs @ ys) = slice_last n (xs @ ys)"
proof (cases "length xs \<le> n")
  case True
  then show ?thesis by (simp add: slice_last_short)
next
  case False
  then have a: "length xs - n + (n + length ys - n) = length xs + length ys - n" by arith
  from False have b: "length xs + length ys - n - length xs = length ys - n" by arith
  from False have c: "n + length ys - n - n = length ys - n" by arith
  from False show ?thesis
    by (simp add: slice_last_def a b c add.commute)
qed

lemma push_shift:
  assumes "length h \<le> 20"
  shows "(if length (h @ [e]) > 20 then tl (h @ [e]) else h @ [e]) = slice_last 20 (h @ [e])"
proof (cases "length h = 20")
  case True
  then have "h \<noteq> []" by auto
  with True show ?thesis by (simp add: slice_last_def drop_Suc)
next
  case False
  with assms have "length (h @ [e]) \<le> 20" by simp
  then show ?thesis
    by (simp add: slice_last_short del: length_append)
qed

lemma updateDetectionHistory_Inr:
  assumes "detectionHistory s instrument = Some h" and "length h \<le> 20"
  shows "updateDetectionHistory s instrument e =
           Inr (s\<lparr>detectionHistory := (detectionHistory s)(instrument \<mapsto> slice_last 20 (h @ [e]))\<rparr>)"
  using assms push_shift [OF assms(2), of e]
  by (simp add: updateDetectionHistory_def Let_def del: length_append)

lemma length_slice_last: "length (slice_last n xs) \<le> n"
  by (simp add: slice_last_def)

lemma pushAll_history:
  assumes "detectionHistory s instrument = Some h" and "length h \<le> 20"
  shows "\<exists>s'. pushAll s instrument es = Inr s' \<and>
              detectionHistory s' instrument = Some (slice_last 20 (h @ es))"
  using assms
proof (induction es arbitrary: s h)
  case Nil
  then show ?case by (simp add: slice_last_short)
next
  case (Cons e es)
  let ?s1 = "s\<lparr>detectionHistory := (detectionHistory s)(instrument \<mapsto> slice_last 20 (h @ [e]))\<rparr>"
  have step: "updateDetectionHistory s instrument e = Inr ?s1"
    using Cons.prems by (rule updateDetectionHistory_Inr)
  have "detectionHistory ?s1 instrument = Some (slice_last 20 (h @ [e]))" by simp
  moreover have "length (slice_last 20 (h @ [e])) \<le> 20" by (rule length_slice_last)
  ultimately obtain s' where
    s': "pushAll ?s1 instrument es = Inr s'"
        "detectionHistory s' instrument = Some (slice_last 20 (slice_last 20 (h @ [e]) @ es))"
    using Cons.IH by blast
  have "slice_last 20 (slice_last 20 (h @ [e]) @ es) = slice_last 20 ((h @ [e]) @ es)"
    by (rule slice_last_append)
  with s' step show ?case by simp
qed

text \<open>
  C2. A band's history holds at most 20 samples, in insertion order. One push onto a
  history of at most 20 samples appends the sample and, when the length then exceeds 20,
  drops the oldest one. Pushing the samples \<open>es\<close> one after the other leaves the last 20 of
  what was there followed by \<open>es\<close>, oldest first; from the empty history, 25 pushes
  leave the last 20 pushed samples (all but the first five) in the order they were pushed.
\<close>

theorem history_fifo_capacity:
  assumes "detectionHistory s instrument = Some h" and "length h \<le> 20"
  shows "updateDetectionHistory s instrument e =
           Inr (s\<lparr>detectionHistory := (detectionHistory s)
                  (instrument \<mapsto> (if length h = 20 then tl h @ [e] else h @ [e]))\<rparr>) \<and>
         (\<exists>s'. pushAll s instrument es = Inr s' \<and>
              detectionHistory s' instrument = Some (slice_last 20 (h @ es)) \<and>
              length (slice_last 20 (h @ es)) \<le> 20 \<and>
              (h = [] \<and> length es = 25 \<longrightarrow>
                 detectionHistory s' instrument = Some (drop 5 es)))"
proof (rule conjI)
  have "slice_last 20 (h @ [e]) = (if length h = 20 then tl h @ [e] else h @ [e])"
  proof (cases "length h = 20")
    case True
    then have "h \<noteq> []" by auto
    with True show ?thesis by (simp add: slice_last_def drop_Suc)
  next
    case False
    with assms(2) show ?thesis by (simp add: slice_last_short)
  qed
  with updateDetectionHistory_Inr [OF assms, of e]
  show "updateDetectionHistory s instrument e =
           Inr (s\<lparr>detectionHistory := (detectionHistory s)
                  (instrument \<mapsto> (if length h = 20 then tl h @ [e] else h @ [e]))\<rparr>)"
    by simp
next
  from pushAll_history [OF assms, of es] obtain s' where
    s': "pushAll s instrument es = Inr s'"
        "detectionHistory s' instrument = Some (slice_last 20 (h @ es))"
    by blast
  have "h = [] \<and> length es = 25 \<longrightarrow> slice_last 20 (h @ es) = drop 5 es"
    by (simp add: slice_last_def)
  with s' length_slice_last [of 20 "h @ es"]
  show "\<exists>s'. pushAll s instrument es = Inr s' \<and>
              detectionHistory s' instrument = Some (slice_last 20 (h @ es)) \<and>
              length (slice_last 20 (h @ es)) \<le> 20 \<and>
              (h = [] \<and> length es = 25 \<longrightarrow>
                 detectionHistory s' instrument = Some (drop 5 es))"
    by auto
qed

theorem history_fifo_capacity_witness:
  "detectionHistory constructor ''kick'' = Some [] \<and> length ([] :: real list) \<le> 20 \<and>
   length [1, 2, 3, 4, 5, 6, 7, 8, 9, 10, 11, 12, 13, 14, 15, 16, 17, 18, 19, 20,
           21, 22, 23, 24, 25 :: real] = 25 \<and>
   (\<exists>s'. pushAll constructor ''kick''
            [1, 2, 3, 4, 5, 6, 7, 8, 9, 10, 11, 12, 13, 14, 15, 16, 17, 18, 19, 20,
             21, 22, 23, 24, 25] = Inr s' \<and>
          detectionHistory s' ''kick'' =
            Some [6, 7, 8, 9, 10, 11, 12, 13, 14, 15, 16, 17, 18, 19, 20, 21, 22, 23, 24, 25])"
proof -
  have h: "detectionHistory constructor ''kick'' = Some []"
    by (simp add: constructor_def instruments_def)
  have l: "length ([] :: real list) \<le> 20" by simp
  show ?thesis
    using h history_fifo_capacity [OF h l,
        of 0 "[1, 2, 3, 4, 5, 6, 7, 8, 9, 10, 11, 12, 13, 14, 15, 16, 17, 18, 19, 20,
             21, 22, 23, 24, 25]"]
    by (simp del: pushAll.simps) blast
qed

subsection \<open>Confidence\<close>


lemma length_slice_last_5: "5 \<le> length h \<Longrightarrow> length (slice_last 5 h) = 5"
  by (simp add: slice_last_def)







lemma hasTransient_slice:
  assumes "5 \<le> length h"
  shows "hasTransient (slice_last 5 h) \<longleftrightarrow>
           (\<exists>j. length h - 5 < j \<and> j < length h \<and> h ! j > double (h ! (j - 1) * (3/2)))"
proof
  let ?k = "length h - 5"
  assume "hasTransient (slice_last 5 h)"
  then obtain i where i: "i < 5" "0 < i"
      "slice_last 5 h ! i > double (slice_last 5 h ! (i - 1) * (3/2))"
    using assms by (auto simp: hasTransient_def list_ex_iff length_slice_last_5)
  from i assms have "h ! (?k + i) > double (h ! (?k + i - 1) * (3/2))"
    by (simp add: slice_last_def)
  with i assms
  show "\<exists>j. length h - 5 < j \<and> j < length h \<and> h ! j > double (h ! (j - 1) * (3/2))"
    by (intro exI [of _ "?k + i"]) auto
next
  let ?k = "length h - 5"
  assume "\<exists>j. length h - 5 < j \<and> j < length h \<and> h ! j > double (h ! (j - 1) * (3/2))"
  then obtain j where j: "?k < j" "j < length h" "h ! j > double (h ! (j - 1) * (3/2))"
    by blast
  define i where "i = j - ?k"
  from j assms have i: "0 < i" "i < 5" "j = ?k + i" "j - 1 = ?k + (i - 1)"
    by (auto simp: i_def)
  with j assms have "slice_last 5 h ! i > double (slice_last 5 h ! (i - 1) * (3/2))"
    by (simp add: slice_last_def)
  with i assms show "hasTransient (slice_last 5 h)"
    by (auto simp: hasTransient_def list_ex_iff length_slice_last_5)
qed

lemma hasTransient_flat:
  assumes "isDouble c" and "0 \<le> c"
  shows "\<not> hasTransient (replicate n c)"
proof -
  from assms(2) have "c \<le> c * (3/2)" by simp
  with assms have "c \<le> double (c * (3/2))" by (rule double_ge)
  then show ?thesis
    by (auto simp: hasTransient_def list_ex_iff)
qed

text \<open>
  Rounding decides the transient test: the energies of the magnitudes 22 and 33 are a
  transient in doubles although 33 is exactly 1.5 times 22, and those of 26 and 39 are
  none.
\<close>

lemma hasTransient_rounding:
  "hasTransient [double (22/255), double (22/255), double (22/255), double (22/255),
                 double (33/255)] \<and>
   \<not> hasTransient [double (26/255), double (26/255), double (26/255), double (26/255),
                   double (39/255)]"
proof -
  have a: "double (22/255) = 3108366801636107 / 2 ^ 55"
    using double_eval [of "- 4" "22/255"] by (simp add: roundTiesToEven_def Let_def)
  have b: "double (33/255) = 4662550202454161 / 2 ^ 55"
    using double_eval [of "- 3" "33/255"] by (simp add: roundTiesToEven_def Let_def)
  have p: "double (3108366801636107 / 2 ^ 55 * (3/2)) = 291409387653385 / 2 ^ 51"
    using double_eval [of "- 3" "3108366801636107 / 2 ^ 55 * (3/2)"]
    by (simp add: roundTiesToEven_def Let_def)
  have c: "double (26/255) = 3673524401933581 / 2 ^ 55"
    using double_eval [of "- 4" "26/255"] by (simp add: roundTiesToEven_def Let_def)
  have d: "double (39/255) = 1377571650725093 / 2 ^ 53"
    using double_eval [of "- 3" "39/255"] by (simp add: roundTiesToEven_def Let_def)
  have q: "double (3673524401933581 / 2 ^ 55 * (3/2)) = 1377571650725093 / 2 ^ 53"
    using double_eval [of "- 3" "3673524401933581 / 2 ^ 55 * (3/2)"]
    by (simp add: roundTiesToEven_def Let_def)
  have t: "double (33/255) > double (double (22/255) * (3/2))"
    unfolding a b p by simp
  have n: "\<not> double (26/255) > double (double (26/255) * (3/2))"
      "\<not> double (39/255) > double (double (26/255) * (3/2))"
    unfolding c d q by simp_all
  from t have "hasTransient [double (22/255), double (22/255), double (22/255),
                 double (22/255), double (33/255)]"
    by (simp add: hasTransient_def upt_conv_Cons)
  moreover from n have "\<not> hasTransient [double (26/255), double (26/255), double (26/255),
                 double (26/255), double (39/255)]"
    by (simp add: hasTransient_def upt_conv_Cons)
  ultimately show ?thesis ..
qed

text \<open>
  C4 (as amended). For a percussion component (kick, snare, hihat) whose history has at
  least 5 samples, the confidence is 0.8 when some sample among the last 5 is strictly
  greater than the product of 1.5 and the sample just before it, both within that window
  and the product rounded to a double as the code computes it, and 0.4 otherwise; a flat
  window of a non-negative double yields 0.4.
\<close>

theorem percussive_confidence:
  assumes "detectionHistory s instrument = Some h" and "5 \<le> length h"
    and "isPercussion instrument"
  shows "getDetectionConfidence s instrument =
           Inr (if (\<exists>j. length h - 5 < j \<and> j < length h \<and>
                        h ! j > double (h ! (j - 1) * (3/2)))
                then 8/10 else 4/10) \<and>
         (slice_last 5 h = replicate 5 c \<and> 0 \<le> c \<and> isDouble c \<longrightarrow>
            getDetectionConfidence s instrument = Inr (4/10))"
proof -
  have f: "getDetectionConfidence s instrument =
          Inr (if hasTransient (slice_last 5 h) then 8/10 else 4/10)"
    using assms by (simp add: getDetectionConfidence_def Let_def)
  have "slice_last 5 h = replicate 5 c \<and> 0 \<le> c \<and> isDouble c \<longrightarrow>
          \<not> hasTransient (slice_last 5 h)"
    using hasTransient_flat [of c 5] by auto
  with f hasTransient_slice [OF assms(2)] show ?thesis by auto
qed




theorem percussive_confidence_witness:
  "detectionHistory (withHistory constructor ''kick'' [1/2, 1/2, 1/2, 1/2, 1]) ''kick''
     = Some [1/2, 1/2, 1/2, 1/2, 1] \<and>
   5 \<le> length [1/2, 1/2, 1/2, 1/2, 1 :: real] \<and> isPercussion ''kick'' \<and>
   (1 :: real) > double (1/2 * (3/2)) \<and>
   getDetectionConfidence (withHistory constructor ''kick'' [1/2, 1/2, 1/2, 1/2, 1]) ''kick''
     = Inr (8/10) \<and>
   detectionHistory (withHistory constructor ''kick'' [1/4, 1/4, 1/4, 1/4, 1/4]) ''kick''
     = Some [1/4, 1/4, 1/4, 1/4, 1/4] \<and>
   slice_last 5 [1/4, 1/4, 1/4, 1/4, 1/4 :: real] = replicate 5 (1/4) \<and> isDouble (1/4) \<and>
   getDetectionConfidence (withHistory constructor ''kick'' [1/4, 1/4, 1/4, 1/4, 1/4]) ''kick''
     = Inr (4/10)"
proof -
  have p: "isPercussion ''kick''" by (simp add: isPercussion_def)
  have h1: "detectionHistory (withHistory constructor ''kick'' [1/2, 1/2, 1/2, 1/2, 1]) ''kick''
     = Some [1/2, 1/2, 1/2, 1/2, 1]" by (simp add: withHistory_def)
  have h2: "detectionHistory (withHistory constructor ''kick'' [1/4, 1/4, 1/4, 1/4, 1/4]) ''kick''
     = Some [1/4, 1/4, 1/4, 1/4, 1/4]" by (simp add: withHistory_def)
  have l1: "5 \<le> length [1/2, 1/2, 1/2, 1/2, 1 :: real]" by simp
  have l2: "5 \<le> length [1/4, 1/4, 1/4, 1/4, 1/4 :: real]" by simp
  have c: "slice_last 5 [1/4, 1/4, 1/4, 1/4, 1/4 :: real] = replicate 5 (1/4)"
    by (simp add: slice_last_def eval_nat_numeral)
  have t: "(1 :: real) > double (1/2 * (3/2))"
    by (simp add: double_examples)
  have j: "\<exists>j. length [1/2, 1/2, 1/2, 1/2, 1 :: real] - 5 < j \<and>
               j < length [1/2, 1/2, 1/2, 1/2, 1 :: real] \<and>
               [1/2, 1/2, 1/2, 1/2, 1 :: real] ! j
                 > double ([1/2, 1/2, 1/2, 1/2, 1] ! (j - 1) * (3/2))"
    by (rule exI [of _ 4]) (simp add: double_examples)
  from percussive_confidence [OF h1 l1 p, of 0, THEN conjunct1] j
  have r1: "getDetectionConfidence (withHistory constructor ''kick'' [1/2, 1/2, 1/2, 1/2, 1]) ''kick''
     = Inr (8/10)" by (simp only: if_True)
  have "slice_last 5 [1/4, 1/4, 1/4, 1/4, 1/4 :: real] = replicate 5 (1/4) \<and> (0::real) \<le> 1/4
          \<and> isDouble (1/4)"
    using c isDouble_examples(4) by simp
  with percussive_confidence [OF h2 l2 p, of "1/4", THEN conjunct2]
  have r2: "getDetectionConfidence (withHistory constructor ''kick'' [1/4, 1/4, 1/4, 1/4, 1/4]) ''kick''
     = Inr (4/10)" by (rule mp)
  from h1 l1 p t r1 h2 c isDouble_examples(4) r2 show ?thesis by blast
qed

text \<open>
  The claim as stated fails: a last sample of 0.75 after 0.5 is at least 1.5 times its
  predecessor, but not more (the product 0.75 is exact in doubles), and the confidence is
  0.4.
\<close>

theorem percussive_at_least_counterexample:
  "slice_last 5 [1/2, 1/2, 1/2, 1/2, 3/4 :: real] = [1/2, 1/2, 1/2, 1/2, 3/4] \<and>
   (3/4 :: real) \<ge> (3/2) * (1/2) \<and> double ((3/2) * (1/2)) = 3/4 \<and>
   getDetectionConfidence (withHistory constructor ''kick'' [1/2, 1/2, 1/2, 1/2, 3/4]) ''kick''
     = Inr (4/10) \<and>
   getDetectionConfidence (withHistory constructor ''kick'' [1/2, 1/2, 1/2, 1/2, 3/4]) ''kick''
     \<noteq> Inr (8/10)"
  by (simp add: getDetectionConfidence_def withHistory_def slice_last_def isPercussion_def
        hasTransient_def upt_conv_Cons double_examples)

subsection \<open>Overlaps and the drums group\<close>

lemma processOverlaps_stages:
  "processOverlaps result =
     (case (suppressed result ''kick'', suppressed result ''snare'', suppressed result ''hihat'') of
        (Some kick, Some snare, Some hihat) \<Rightarrow>
          (suppressed result)(''drums'' \<mapsto>
            DetectionResult
              (max (energy kick) (max (energy snare) (energy hihat)))
              (active kick \<or> active snare \<or> active hihat)
              (max (confidence kick) (max (confidence snare) (confidence hihat)))
              (Some [(''kick'', kick), (''snare'', snare), (''hihat'', hihat)]))
      | _ \<Rightarrow> suppressed result)"
  unfolding processOverlaps_def suppressed_def Let_def ..

lemma suppressed_other: "k \<noteq> ''guitar'' \<Longrightarrow> suppressed result k = result k"
  by (simp add: suppressed_def split: option.splits)

lemma suppressed_guitar:
  "suppressed result ''guitar'' =
     (case (result ''bass'', result ''guitar'') of
        (Some b, Some g) \<Rightarrow>
          Some (if active b \<and> active g \<and> energy b > double (energy g * double (12/10))
                then DetectionResult (energy g) (active g) (confidence g * (7/10)) (components g)
                else g)
      | (_, g) \<Rightarrow> g)"
  by (simp add: suppressed_def split: option.splits)

lemma processOverlaps_not_drums:
  "k \<noteq> ''drums'' \<Longrightarrow> processOverlaps result k = suppressed result k"
  by (simp add: processOverlaps_stages split: option.splits)

lemma processOverlaps_drums:
  "processOverlaps result ''drums'' =
     (case (result ''kick'', result ''snare'', result ''hihat'') of
        (Some kick, Some snare, Some hihat) \<Rightarrow>
          Some (DetectionResult
              (max (energy kick) (max (energy snare) (energy hihat)))
              (active kick \<or> active snare \<or> active hihat)
              (max (confidence kick) (max (confidence snare) (confidence hihat)))
              (Some [(''kick'', kick), (''snare'', snare), (''hihat'', hihat)]))
      | _ \<Rightarrow> result ''drums'')"
  by (simp add: processOverlaps_stages suppressed_other split: option.splits)

text \<open>
  Rounding decides the overlap test as well: the energies of the magnitudes 156 and 130
  damp the guitar in doubles although 156 is exactly 1.2 times 130, and those of 180 and
  150 do not.
\<close>

lemma overlap_rounding:
  "double (156/255) > double (double (130/255) * double (12/10)) \<and>
   \<not> double (180/255) > double (double (150/255) * double (12/10))"
proof -
  have k: "double (12/10) = 5404319552844595 / 2 ^ 52"
    using double_eval [of 0 "12/10"] by (simp add: roundTiesToEven_def Let_def)
  have g: "double (130/255) = 286994093901061 / 2 ^ 49"
    using double_eval [of "- 1" "130/255"] by (simp add: roundTiesToEven_def Let_def)
  have b: "double (156/255) = 1377571650725093 / 2 ^ 51"
    using double_eval [of "- 1" "156/255"] by (simp add: roundTiesToEven_def Let_def)
  have p: "double (286994093901061 / 2 ^ 49 * (5404319552844595 / 2 ^ 52))
             = 5510286602900371 / 2 ^ 53"
    using double_eval [of "- 1" "286994093901061 / 2 ^ 49 * (5404319552844595 / 2 ^ 52)"]
    by (simp add: roundTiesToEven_def Let_def)
  have g': "double (150/255) = 5298352502788819 / 2 ^ 53"
    using double_eval [of "- 1" "150/255"] by (simp add: roundTiesToEven_def Let_def)
  have b': "double (180/255) = 6358023003346583 / 2 ^ 53"
    using double_eval [of "- 1" "180/255"] by (simp add: roundTiesToEven_def Let_def)
  have p': "double (5298352502788819 / 2 ^ 53 * (5404319552844595 / 2 ^ 52))
             = 6358023003346583 / 2 ^ 53"
    using double_eval [of "- 1" "5298352502788819 / 2 ^ 53 * (5404319552844595 / 2 ^ 52)"]
    by (simp add: roundTiesToEven_def Let_def)
  have "double (156/255) > double (double (130/255) * double (12/10))"
    unfolding k g b p by simp
  moreover have "\<not> double (180/255) > double (double (150/255) * double (12/10))"
    unfolding k g' b' p' by simp
  ultimately show ?thesis ..
qed

text \<open>
  C5 (as amended). The one registered pair is checked in one direction. When bass and guitar
  are both present and both active and the bass energy exceeds the product of the guitar
  energy and 1.2, computed in doubles as the code does, the guitar's confidence is
  multiplied by 0.7; otherwise the guitar's result is unchanged, also when the guitar is the
  stronger band. The bass result and every other band's result are never changed (the
  \<^verbatim>\<open>drums\<close> entry is the group result).
\<close>

theorem overlap_suppression:
  "(\<forall>k. k \<noteq> ''guitar'' \<and> k \<noteq> ''drums'' \<longrightarrow> processOverlaps result k = result k) \<and>
   (result ''bass'' = Some b \<and> result ''guitar'' = Some g \<longrightarrow>
      processOverlaps result ''guitar'' =
        Some (if active b \<and> active g \<and> energy b > double (energy g * double (12/10))
              then DetectionResult (energy g) (active g) (confidence g * (7/10)) (components g)
              else g) \<and>
      processOverlaps result ''bass'' = Some b) \<and>
   (result ''bass'' = None \<or> result ''guitar'' = None \<longrightarrow>
      processOverlaps result ''guitar'' = result ''guitar'')"
proof (intro conjI allI impI)
  fix k assume "k \<noteq> ''guitar'' \<and> k \<noteq> ''drums''"
  then show "processOverlaps result k = result k"
    by (simp add: processOverlaps_not_drums suppressed_other)
next
  assume "result ''bass'' = Some b \<and> result ''guitar'' = Some g"
  then show "processOverlaps result ''guitar'' =
        Some (if active b \<and> active g \<and> energy b > double (energy g * double (12/10))
              then DetectionResult (energy g) (active g) (confidence g * (7/10)) (components g)
              else g)"
    by (simp add: processOverlaps_not_drums suppressed_guitar)
next
  assume "result ''bass'' = Some b \<and> result ''guitar'' = Some g"
  then show "processOverlaps result ''bass'' = Some b"
    by (simp add: processOverlaps_not_drums suppressed_other)
next
  assume "result ''bass'' = None \<or> result ''guitar'' = None"
  then show "processOverlaps result ''guitar'' = result ''guitar''"
    by (auto simp add: processOverlaps_not_drums suppressed_guitar split: option.splits)
qed

lemma bass_over_guitar: "(7/8 :: real) > double (5/8 * double (12/10))"
proof -
  have "double (12/10) \<le> 5/4"
    by (rule double_le) (simp_all add: isDouble_examples)
  moreover have "0 \<le> double (12/10)" by (rule double_nonneg) simp
  ultimately have "double (5/8 * double (12/10)) \<le> 25/32"
    by (intro double_le) (simp_all add: isDouble_examples)
  then show ?thesis by simp
qed

theorem overlap_suppression_witness:
  "bassOver ''bass'' = Some (DetectionResult (7/8) True (1/2) None) \<and>
   bassOver ''guitar'' = Some (DetectionResult (5/8) True (1/2) None) \<and>
   ''bass'' \<noteq> ''guitar'' \<and> ''bass'' \<noteq> ''drums'' \<and>
   (7/8 :: real) > double (5/8 * double (12/10)) \<and>
   processOverlaps bassOver ''guitar'' = Some (DetectionResult (5/8) True (7/20) None) \<and>
   processOverlaps bassOver ''bass'' = Some (DetectionResult (7/8) True (1/2) None) \<and>
   processOverlaps bassOver ''vocals'' = None"
proof -
  have b: "bassOver ''bass'' = Some (DetectionResult (7/8) True (1/2) None)"
    and g: "bassOver ''guitar'' = Some (DetectionResult (5/8) True (1/2) None)"
    and v: "bassOver ''vocals'' = None"
    by (simp_all add: bassOver_def)
  note t = overlap_suppression [of bassOver "DetectionResult (7/8) True (1/2) None"
             "DetectionResult (5/8) True (1/2) None"]
  from t b g bass_over_guitar have
    "processOverlaps bassOver ''guitar'' = Some (DetectionResult (5/8) True (7/20) None)"
    by simp
  moreover from t have "processOverlaps bassOver ''bass'' = bassOver ''bass''"
    "processOverlaps bassOver ''vocals'' = bassOver ''vocals''" by simp_all
  ultimately show ?thesis using b g v bass_over_guitar by simp
qed

text \<open>
  The claim as stated fails in the other direction: with both bands active and the guitar's
  energy above 1.2 times the bass's, the bass (the weaker band) keeps its confidence.
\<close>

theorem overlap_symmetric_counterexample:
  "guitarOver ''bass'' = Some (DetectionResult (5/8) True (1/2) None) \<and>
   guitarOver ''guitar'' = Some (DetectionResult (7/8) True (1/2) None) \<and>
   (7/8 :: real) > double (5/8 * double (12/10)) \<and>
   processOverlaps guitarOver ''bass'' = Some (DetectionResult (5/8) True (1/2) None) \<and>
   processOverlaps guitarOver ''bass'' \<noteq> Some (DetectionResult (5/8) True (1/2 * (7/10)) None)"
  using bass_over_guitar
  by (simp add: guitarOver_def processOverlaps_not_drums suppressed_other)

text \<open>
  C6. On a tick's results, which hold no \<^verbatim>\<open>drums\<close> entry before the overlaps are
  processed, a \<^verbatim>\<open>drums\<close> result is emitted exactly when kick, snare and hihat all have
  a result. Its energy is the maximum of the three energies, its active flag the
  disjunction of theirs, its confidence the maximum of theirs, and its components are the
  three results under their names.
\<close>

theorem drums_group:
  assumes "result ''drums'' = None"
  shows "(processOverlaps result ''drums'' \<noteq> None \<longleftrightarrow>
            result ''kick'' \<noteq> None \<and> result ''snare'' \<noteq> None \<and> result ''hihat'' \<noteq> None) \<and>
         (result ''kick'' = Some k \<and> result ''snare'' = Some sn \<and> result ''hihat'' = Some hh \<longrightarrow>
            processOverlaps result ''drums'' =
              Some (DetectionResult
                (Max {energy k, energy sn, energy hh})
                (active k \<or> active sn \<or> active hh)
                (Max {confidence k, confidence sn, confidence hh})
                (Some [(''kick'', k), (''snare'', sn), (''hihat'', hh)])))"
proof (intro conjI impI)
  from assms show "processOverlaps result ''drums'' \<noteq> None \<longleftrightarrow>
            result ''kick'' \<noteq> None \<and> result ''snare'' \<noteq> None \<and> result ''hihat'' \<noteq> None"
    by (simp add: processOverlaps_drums split: option.splits)
next
  have m: "Max {x, y, z} = max x (max y z)" for x y z :: real by simp
  assume "result ''kick'' = Some k \<and> result ''snare'' = Some sn \<and> result ''hihat'' = Some hh"
  then show "processOverlaps result ''drums'' =
              Some (DetectionResult
                (Max {energy k, energy sn, energy hh})
                (active k \<or> active sn \<or> active hh)
                (Max {confidence k, confidence sn, confidence hh})
                (Some [(''kick'', k), (''snare'', sn), (''hihat'', hh)]))"
    unfolding m by (simp add: processOverlaps_drums)
qed

theorem drums_group_witness:
  "drumTick ''drums'' = None \<and>
   drumTick ''kick'' = Some (DetectionResult (3/4) True (4/5) None) \<and>
   drumTick ''snare'' = Some (DetectionResult (1/4) False (2/5) None) \<and>
   drumTick ''hihat'' = Some (DetectionResult (1/2) True (2/5) None) \<and>
   processOverlaps drumTick ''drums'' =
     Some (DetectionResult (3/4) True (4/5)
       (Some [(''kick'', DetectionResult (3/4) True (4/5) None),
              (''snare'', DetectionResult (1/4) False (2/5) None),
              (''hihat'', DetectionResult (1/2) True (2/5) None)]))"
proof -
  have d: "drumTick ''drums'' = None"
    and k: "drumTick ''kick'' = Some (DetectionResult (3/4) True (4/5) None)"
    and s: "drumTick ''snare'' = Some (DetectionResult (1/4) False (2/5) None)"
    and h: "drumTick ''hihat'' = Some (DetectionResult (1/2) True (2/5) None)"
    by (simp_all add: drumTick_def)
  from drums_group [of drumTick "DetectionResult (3/4) True (4/5) None"
      "DetectionResult (1/4) False (2/5) None" "DetectionResult (1/2) True (2/5) None"] d k s h
  have "processOverlaps drumTick ''drums'' =
     Some (DetectionResult (3/4) True (4/5)
       (Some [(''kick'', DetectionResult (3/4) True (4/5) None),
              (''snare'', DetectionResult (1/4) False (2/5) None),
              (''hihat'', DetectionResult (1/2) True (2/5) None)]))"
    by simp
  with d k s h show ?thesis by simp
qed

subsection \<open>Band energy\<close>

lemma sumRange_in_range:
  assumes "0 \<le> i" and "min highIndex bufferLength \<le> int (length dataArray)"
  shows "sumRange dataArray highIndex bufferLength i tot count =
           Inr (tot + (\<Sum>k\<leftarrow>[nat i..<nat (min highIndex bufferLength)]. real (unat (dataArray ! k))),
                count + (nat (min highIndex bufferLength) - nat i))"
  using assms
proof (induction dataArray highIndex bufferLength i tot count rule: sumRange.induct)
  case (1 d hi bl i tot count)
  show ?case
  proof (cases "i < hi \<and> i < bl")
    case True
    with "1.prems" have "i < int (length d)" by arith
    with "1.prems" have rb: "readByte d i = Some (d ! nat i)"
      by (simp add: readByte_def)
    from "1.prems" have "0 \<le> i + 1" by simp
    from "1.IH" [OF True rb this "1.prems"(2)]
    have IH: "sumRange d hi bl (i + 1) (tot + real (unat (d ! nat i))) (count + 1) =
        Inr (tot + real (unat (d ! nat i)) +
               (\<Sum>k\<leftarrow>[nat (i + 1)..<nat (min hi bl)]. real (unat (d ! k))),
             count + 1 + (nat (min hi bl) - nat (i + 1)))" .
    from True "1.prems" have lt: "nat i < nat (min hi bl)" by simp
    from "1.prems" have suc: "nat (i + 1) = Suc (nat i)" by simp
    from lt have upt: "[nat i..<nat (min hi bl)] = nat i # [Suc (nat i)..<nat (min hi bl)]"
      by (rule upt_conv_Cons)
    from lt have cnt: "count + 1 + (nat (min hi bl) - Suc (nat i)) = count + (nat (min hi bl) - nat i)"
      by arith
    have step: "sumRange d hi bl i tot count =
        sumRange d hi bl (i + 1) (tot + real (unat (d ! nat i))) (count + 1)"
      using True rb by (subst sumRange.simps) (simp del: sumRange.simps of_nat_unat)
    show ?thesis
      unfolding step IH suc upt cnt by (simp del: of_nat_unat add: add.assoc)
  next
    case False
    then have "nat (min hi bl) \<le> nat i" by auto
    then have e: "[nat i..<nat (min hi bl)] = []" "nat (min hi bl) - nat i = 0" by simp_all
    have stop: "sumRange d hi bl i tot count = Inr (tot, count)"
      by (subst sumRange.simps) (simp only: False if_False)
    show ?thesis
      unfolding stop e by simp
  qed
qed

lemma byte_bounds: "0 \<le> real (unat (w :: 8 word))" "real (unat (w :: 8 word)) \<le> 255"
proof -
  show "0 \<le> real (unat w)" by (rule of_nat_0_le_iff)
  have "unat w < 2 ^ LENGTH(8)" by (rule unsigned_less)
  then have "unat w \<le> 255" by simp
  then have "real (unat w) \<le> real 255" by (rule of_nat_mono)
  then show "real (unat w) \<le> 255" by (simp del: of_nat_unat)
qed

lemma sum_bytes_bounds:
  fixes d :: "8 word list"
  shows "0 \<le> (\<Sum>k\<leftarrow>ks. real (unat (d ! k)))"
    and "(\<Sum>k\<leftarrow>ks. real (unat (d ! k))) \<le> 255 * real (length ks)"
proof -
  show "0 \<le> (\<Sum>k\<leftarrow>ks. real (unat (d ! k)))"
  proof (induction ks)
    case Nil
    then show ?case by simp
  next
    case (Cons k ks)
    with byte_bounds(1) [of "d ! k"] show ?case by (simp del: of_nat_unat)
  qed
  show "(\<Sum>k\<leftarrow>ks. real (unat (d ! k))) \<le> 255 * real (length ks)"
  proof (induction ks)
    case Nil
    then show ?case by simp
  next
    case (Cons k ks)
    with byte_bounds(2) [of "d ! k"] show ?case by (simp add: algebra_simps del: of_nat_unat)
  qed
qed

lemma bandAverage_bounds: "0 \<le> bandAverage d lo hi" "bandAverage d lo hi \<le> 1"
proof -
  let ?m = "(\<Sum>k\<leftarrow>[lo..<hi]. real (unat (d ! k))) / real (hi - lo)"
  have m0: "0 \<le> ?m"
    using sum_bytes_bounds(1) [of d "[lo..<hi]"] by (simp del: of_nat_unat)
  then have d0: "0 \<le> double ?m" by (rule double_nonneg)
  then have q0: "0 \<le> double ?m / 255" by simp
  then have nn: "0 \<le> double (double ?m / 255)" by (rule double_nonneg)
  have av: "bandAverage d lo hi = double (double ?m / 255)" if "lo < hi"
    unfolding bandAverage_def using that by (simp only: if_True)
  show "0 \<le> bandAverage d lo hi"
  proof (cases "lo < hi")
    case True
    from nn show ?thesis unfolding av [OF True] .
  next
    case False
    then show ?thesis by (simp add: bandAverage_def)
  qed
  show "bandAverage d lo hi \<le> 1"
  proof (cases "lo < hi")
    case True
    then have "real (length [lo..<hi]) = real (hi - lo)" and pos: "0 < real (hi - lo)"
      by simp_all
    with sum_bytes_bounds(2) [of d "[lo..<hi]"]
    have "(\<Sum>k\<leftarrow>[lo..<hi]. real (unat (d ! k))) \<le> 255 * real (hi - lo)"
      by (simp only:)
    with pos have "?m \<le> 255"
      by (simp only: divide_le_eq if_True)
    with isDouble_examples(10) m0 have "double ?m \<le> 255" by (rule double_le)
    then have "double ?m / 255 \<le> 1" by simp
    with isDouble_examples(2) q0 have "double (double ?m / 255) \<le> 1" by (rule double_le)
    then show ?thesis unfolding av [OF True] .
  next
    case False
    then show ?thesis by (simp add: bandAverage_def)
  qed
qed

lemma toNumber_nonneg:
  assumes "0 \<le> x"
  shows "toNumber x = PlusInfinity \<or> (\<exists>q. toNumber x = Finite q \<and> 0 \<le> q)"
proof -
  from assms have "0 \<le> double x" by (rule double_nonneg)
  moreover have "(0::real) < 2 powi 1024" by simp
  ultimately show ?thesis by (simp add: toNumber_def)
qed

text \<open>
  A low frequency and a sample rate that are not negative give a low index that is not
  negative either (or no finite index at all).
\<close>

lemma freqIndex_low:
  assumes "0 \<le> freq" and "0 \<le> rate" and "0 \<le> bl"
  shows "case freqIndex freq rate bl of
           Finite lo \<Rightarrow> 0 \<le> lo | PlusInfinity \<Rightarrow> True
         | MinusInfinity \<Rightarrow> False | NotANumber \<Rightarrow> True"
proof (cases "double (rate / 2) = 0")
  case True
  with assms show ?thesis by (simp add: freqIndex_def)
next
  case False
  from assms have "0 \<le> double (rate / 2)" by (intro double_nonneg) simp
  with assms have "0 \<le> freq / double (rate / 2)" by simp
  from toNumber_nonneg [OF this] show ?thesis
  proof (elim disjE exE conjE)
    assume "toNumber (freq / double (rate / 2)) = PlusInfinity"
    with False assms show ?thesis by (simp add: freqIndex_def)
  next
    fix q assume q: "toNumber (freq / double (rate / 2)) = Finite q" "0 \<le> q"
    with assms have "0 \<le> q * of_int bl" by simp
    from toNumber_nonneg [OF this] False q show ?thesis
      by (auto simp: freqIndex_def)
  qed
qed

text \<open>The index is the floor of the rounded product when nothing overflows.\<close>

lemma freqIndex_finite:
  assumes "double (rate / 2) \<noteq> 0"
    and "\<bar>double (freq / double (rate / 2))\<bar> < 2 powi 1024"
    and "\<bar>double (double (freq / double (rate / 2)) * of_int bl)\<bar> < 2 powi 1024"
  shows "freqIndex freq rate bl = Finite \<lfloor>double (double (freq / double (rate / 2)) * of_int bl)\<rfloor>"
proof -
  from assms(2) have q: "toNumber (freq / double (rate / 2)) = Finite (double (freq / double (rate / 2)))"
    by (simp add: toNumber_def abs_less_iff)
  from assms(3) have p: "toNumber (double (freq / double (rate / 2)) * of_int bl) =
      Finite (double (double (freq / double (rate / 2)) * of_int bl))"
    by (simp add: toNumber_def abs_less_iff)
  from assms(1) show ?thesis
    by (simp add: freqIndex_def q p)
qed

lemma toNumber_between:
  assumes "isDouble a" and "isDouble b" and "0 \<le> a" and "a \<le> x" and "x \<le> b"
  shows "\<exists>q. toNumber x = Finite q \<and> a \<le> q \<and> q \<le> b"
proof -
  from assms(1,3,4) have l: "a \<le> double x" by (rule double_ge)
  from assms(3,4) have "0 \<le> x" by simp
  with assms(2) have u: "double x \<le> b" using assms(5) by (rule double_le)
  from assms(2) have "b < 2 powi 1024" by (simp add: isDouble_def abs_less_iff)
  moreover have "(0::real) < 2 powi 1024" by simp
  ultimately have "toNumber x = Finite (double x)"
    using l u assms(3) by (simp add: toNumber_def)
  with l u show ?thesis by simp
qed

text \<open>
  An index from bounds that are doubles: \<open>a\<close> and \<open>b\<close> around the quotient, \<open>c\<close> and
  \<open>d\<close> around the product.
\<close>

lemma freqIndex_between:
  assumes half: "double (rate / 2) = hf" "0 < hf"
    and a: "isDouble a" "0 \<le> a" "a \<le> freq / hf"
    and b: "isDouble b" "freq / hf \<le> b"
    and c: "isDouble c" "0 \<le> c" "c \<le> a * of_int bl"
    and d: "isDouble d" "b * of_int bl \<le> d"
    and bl: "0 \<le> bl"
    and k: "of_int k \<le> c" "d < of_int k + 1"
  shows "freqIndex freq rate bl = Finite k"
proof -
  from toNumber_between [OF a(1) b(1) a(2) a(3) b(2)] obtain q where
    q: "toNumber (freq / hf) = Finite q" "a \<le> q" "q \<le> b" by blast
  from q(2) bl have "a * of_int bl \<le> q * of_int bl" by (simp add: mult_right_mono)
  with c(3) have lo: "c \<le> q * of_int bl" by simp
  from q(3) bl have "q * of_int bl \<le> b * of_int bl" by (simp add: mult_right_mono)
  with d(2) have hi: "q * of_int bl \<le> d" by simp
  from toNumber_between [OF c(1) d(1) c(2) lo hi] obtain p where
    p: "toNumber (q * of_int bl) = Finite p" "c \<le> p" "p \<le> d" by blast
  from p k have "\<lfloor>p\<rfloor> = k" by (simp add: floor_unique)
  with half q(1) p(1) show ?thesis
    by (simp add: freqIndex_def)
qed

lemma freqIndex_examples:
  "freqIndex 300 48000 16 = Finite 0" "freqIndex 4000 48000 16 = Finite 2"
  "freqIndex 60 48000 16 = Finite 0" "freqIndex 250 48000 16 = Finite 0"
proof -
  have h: "double (48000 / 2) = 24000" "(0::real) < 24000"
    by (simp_all add: double_examples)
  have bl: "(0::int) \<le> 16" by simp
  show "freqIndex 300 48000 16 = Finite 0"
    by (rule freqIndex_between [OF h, of "1/128" 300 "1/64" "1/8" 16 "1/4" 0])
       (use isDouble_dyadic [of 1 7] isDouble_dyadic [of 1 6] isDouble_dyadic [of 1 3]
          isDouble_dyadic [of 1 2] in simp_all)
  show "freqIndex 4000 48000 16 = Finite 2"
    by (rule freqIndex_between [OF h, of "5/32" 4000 "11/64" "5/2" 16 "11/4" 2])
       (use isDouble_dyadic [of 5 5] isDouble_dyadic [of 11 6] isDouble_dyadic [of 5 1]
          isDouble_dyadic [of 11 2] in simp_all)
  show "freqIndex 60 48000 16 = Finite 0"
    by (rule freqIndex_between [OF h, of "1/512" 60 "1/256" "1/32" 16 "1/16" 0])
       (use isDouble_dyadic [of 1 9] isDouble_dyadic [of 1 8] isDouble_dyadic [of 1 5]
          isDouble_dyadic [of 1 4] in simp_all)
  show "freqIndex 250 48000 16 = Finite 0"
    by (rule freqIndex_between [OF h, of "1/128" 250 "1/64" "1/8" 16 "1/4" 0])
       (use isDouble_dyadic [of 1 7] isDouble_dyadic [of 1 6] isDouble_dyadic [of 1 3]
          isDouble_dyadic [of 1 2] in simp_all)
qed

text \<open>
  The index found in exact arithmetic can be one more than the source's: 60 Hz at
  22050 Hz with 735 bins is bin 4 exactly, and bin 3 in doubles, where the quotient is
  rounded down and the product falls just below 4.
\<close>

lemma freqIndex_rounded:
  "freqIndex 60 22050 735 = Finite 3 \<and> \<lfloor>(60::real) / (22050 / 2) * of_int 735\<rfloor> = 4"
proof -
  have h: "double (22050 / 2) = 11025"
    using double_dyadic [of 11025 0] by simp
  have q: "double (60 / 11025) = 6274402746159711 / 2 ^ 60"
    using double_eval [of "- 8" "60 / 11025"] by (simp add: roundTiesToEven_def Let_def)
  have p: "double (6274402746159711 / 2 ^ 60 * of_int 735) = 9007199254740991 / 2 ^ 51"
    using double_eval [of 1 "6274402746159711 / 2 ^ 60 * of_int 735"]
    by (simp add: roundTiesToEven_def Let_def)
  have "freqIndex 60 22050 735 =
          Finite \<lfloor>double (double (60 / double (22050 / 2)) * of_int 735)\<rfloor>"
  proof (rule freqIndex_finite)
    show "double (22050 / 2) \<noteq> 0" unfolding h by simp
    show "\<bar>double (60 / double (22050 / 2))\<bar> < 2 powi 1024" unfolding h q by simp
    show "\<bar>double (double (60 / double (22050 / 2)) * of_int 735)\<bar> < 2 powi 1024"
      unfolding h q p by simp
  qed
  also have "\<dots> = Finite 3"
    unfolding h q p by simp
  finally show ?thesis by simp
qed

lemma loopRange_le: "0 \<le> bl \<Longrightarrow> snd (loopRange lowIndex highIndex bl) \<le> nat bl"
  by (cases lowIndex; cases highIndex) (simp_all add: loopRange_def)

lemma sumIndices_in_range:
  assumes low: "case lowIndex of Finite lo \<Rightarrow> 0 \<le> lo | PlusInfinity \<Rightarrow> True
                | MinusInfinity \<Rightarrow> False | NotANumber \<Rightarrow> True"
    and bl: "0 \<le> bufferLength"
    and inside: "snd (loopRange lowIndex highIndex bufferLength) \<le> length dataArray"
  shows "sumIndices dataArray lowIndex highIndex bufferLength =
           Inr ((\<Sum>k\<leftarrow>[fst (loopRange lowIndex highIndex bufferLength)..<
                       snd (loopRange lowIndex highIndex bufferLength)].
                   real (unat (dataArray ! k))),
                snd (loopRange lowIndex highIndex bufferLength)
                  - fst (loopRange lowIndex highIndex bufferLength))"
proof (cases lowIndex)
  case (Finite lo)
  with low have lo: "0 \<le> lo" by simp
  show ?thesis
  proof (cases highIndex)
    case (Finite hi)
    with \<open>lowIndex = Finite lo\<close> inside have "min hi bufferLength \<le> int (length dataArray)"
      by (simp add: loopRange_def)
    from sumRange_in_range [OF lo this, of 0 0] Finite \<open>lowIndex = Finite lo\<close>
    show ?thesis by (simp add: sumIndices_def loopRange_def del: of_nat_unat sumRange.simps)
  next
    case PlusInfinity
    with \<open>lowIndex = Finite lo\<close> inside bl
    have "min bufferLength bufferLength \<le> int (length dataArray)"
      by (simp add: loopRange_def)
    from sumRange_in_range [OF lo this, of 0 0] PlusInfinity \<open>lowIndex = Finite lo\<close>
    show ?thesis by (simp add: sumIndices_def loopRange_def del: of_nat_unat sumRange.simps)
  next
    case MinusInfinity
    with \<open>lowIndex = Finite lo\<close> show ?thesis by (simp add: sumIndices_def loopRange_def)
  next
    case NotANumber
    with \<open>lowIndex = Finite lo\<close> show ?thesis by (simp add: sumIndices_def loopRange_def)
  qed
next
  case PlusInfinity
  then show ?thesis by (simp add: sumIndices_def loopRange_def)
next
  case MinusInfinity
  with low show ?thesis by simp
next
  case NotANumber
  then show ?thesis by (simp add: sumIndices_def loopRange_def)
qed

lemma getDetectionConfidence_Inr:
  "detectionHistory s instrument = Some h \<Longrightarrow> \<exists>c. getDetectionConfidence s instrument = Inr c"
  by (cases "getDetectionConfidence s instrument")
    (auto simp: getDetectionConfidence_def Let_def split: if_splits)

text \<open>What one call computes, when every read stays inside the array.\<close>

lemma processInstrumentData_Inr:
  assumes ctx: "audioContext s = Some sampleRate" and rate: "0 \<le> sampleRate"
    and low: "0 \<le> lowFreq" and bl: "0 \<le> bufferLength"
    and inside: "snd (loopRange (freqIndex lowFreq sampleRate bufferLength)
                        (freqIndex highFreq sampleRate bufferLength) bufferLength)
                   \<le> length dataArray"
    and hist: "detectionHistory s instrument = Some h"
    and thr: "lookupThreshold instrument = Inr thr"
  defines "e \<equiv> bandAverage dataArray
                 (fst (loopRange (freqIndex lowFreq sampleRate bufferLength)
                        (freqIndex highFreq sampleRate bufferLength) bufferLength))
                 (snd (loopRange (freqIndex lowFreq sampleRate bufferLength)
                        (freqIndex highFreq sampleRate bufferLength) bufferLength))"
  defines "s' \<equiv> s\<lparr>detectionHistory := (detectionHistory s)
                (instrument \<mapsto> (if length h \<ge> 20 then tl (h @ [e]) else h @ [e]))\<rparr>"
  shows "\<exists>c. getDetectionConfidence s' instrument = Inr c \<and>
           processInstrumentData s instrument dataArray bufferLength (lowFreq, highFreq) =
             Inr (s', DetectionResult e (case thr of None \<Rightarrow> False | Some t \<Rightarrow> e > t) c None)"
proof -
  let ?lo = "freqIndex lowFreq sampleRate bufferLength"
  let ?hi = "freqIndex highFreq sampleRate bufferLength"
  let ?R = "loopRange ?lo ?hi bufferLength"
  have lo: "case ?lo of Finite lo \<Rightarrow> 0 \<le> lo | PlusInfinity \<Rightarrow> True
            | MinusInfinity \<Rightarrow> False | NotANumber \<Rightarrow> True"
    using low rate bl by (rule freqIndex_low)
  have sr: "sumIndices dataArray ?lo ?hi bufferLength =
      Inr ((\<Sum>k\<leftarrow>[fst ?R..<snd ?R]. real (unat (dataArray ! k))), snd ?R - fst ?R)"
    using lo bl inside by (rule sumIndices_in_range)
  have raw: "(if snd ?R - fst ?R > 0
              then double (double ((\<Sum>k\<leftarrow>[fst ?R..<snd ?R]. real (unat (dataArray ! k)))
                     / real (snd ?R - fst ?R)) / 255)
              else 0) = e"
    by (simp add: e_def bandAverage_def)
  have upd: "updateDetectionHistory s instrument e = Inr s'"
    using hist by (simp add: updateDetectionHistory_def s'_def Let_def)
  have "detectionHistory s' instrument \<noteq> None" by (simp add: s'_def)
  then obtain c where c: "getDetectionConfidence s' instrument = Inr c"
    using getDetectionConfidence_Inr [of s' instrument] by auto
  have "processInstrumentData s instrument dataArray bufferLength (lowFreq, highFreq) =
          Inr (s', DetectionResult e (case thr of None \<Rightarrow> False | Some t \<Rightarrow> e > t) c None)"
    unfolding processInstrumentData_def
    by (simp only: prod.case ctx option.case Let_def sr sum.case raw upd thr c)
  with c show ?thesis by blast
qed

text \<open>
  C8. For a frame of \<open>bufferLength\<close> bytes, a sample rate and a low frequency that are not
  negative, each frequency is mapped to the index
  \<open>floor (freq / (sampleRate / 2) * bufferLength)\<close> as the code computes it, in doubles
  with one rounding per operation (the floor of the rounded product whenever nothing
  overflows and half the sample rate is not zero). The extracted energy is the average of
  the magnitudes at the indices from the low index up to but not including the high
  index, cut at the end of the buffer, divided by 255. It lies between 0 and 1, and it is
  0 when that index range is empty: the division by the count is guarded.
\<close>

theorem band_energy_extraction:
  assumes "audioContext s = Some sampleRate" and "0 \<le> sampleRate" and "0 \<le> lowFreq"
    and "bufferLength = int (length dataArray)"
    and "detectionHistory s instrument = Some h" and "lookupThreshold instrument = Inr thr"
  shows "\<exists>s' r lo hi.
           processInstrumentData s instrument dataArray bufferLength (lowFreq, highFreq)
             = Inr (s', r) \<and>
           loopRange (freqIndex lowFreq sampleRate bufferLength)
             (freqIndex highFreq sampleRate bufferLength) bufferLength = (lo, hi) \<and>
           hi \<le> length dataArray \<and>
           energy r = bandAverage dataArray lo hi \<and>
           0 \<le> energy r \<and> energy r \<le> 1 \<and>
           (hi \<le> lo \<longrightarrow> energy r = 0) \<and>
           (\<forall>freq. double (sampleRate / 2) \<noteq> 0 \<and>
                   \<bar>double (freq / double (sampleRate / 2))\<bar> < 2 powi 1024 \<and>
                   \<bar>double (double (freq / double (sampleRate / 2)) * of_int bufferLength)\<bar>
                     < 2 powi 1024 \<longrightarrow>
                   freqIndex freq sampleRate bufferLength =
                     Finite \<lfloor>double (double (freq / double (sampleRate / 2))
                                       * of_int bufferLength)\<rfloor>)"
proof -
  let ?R = "loopRange (freqIndex lowFreq sampleRate bufferLength)
              (freqIndex highFreq sampleRate bufferLength) bufferLength"
  define e where "e = bandAverage dataArray (fst ?R) (snd ?R)"
  from assms(4) have bl: "0 \<le> bufferLength" by simp
  from loopRange_le [OF bl] assms(4) have inside: "snd ?R \<le> length dataArray" by simp
  from processInstrumentData_Inr [OF assms(1,2,3) bl inside assms(5,6)]
  obtain s' c where
    p: "processInstrumentData s instrument dataArray bufferLength (lowFreq, highFreq) =
       Inr (s', DetectionResult e (case thr of None \<Rightarrow> False | Some t \<Rightarrow> e > t) c None)"
    unfolding e_def by blast
  have z: "snd ?R \<le> fst ?R \<longrightarrow> e = 0"
    by (simp add: e_def bandAverage_def)
  have b: "0 \<le> e" "e \<le> 1"
    unfolding e_def by (rule bandAverage_bounds)+
  have f: "\<forall>freq. double (sampleRate / 2) \<noteq> 0 \<and>
                   \<bar>double (freq / double (sampleRate / 2))\<bar> < 2 powi 1024 \<and>
                   \<bar>double (double (freq / double (sampleRate / 2)) * of_int bufferLength)\<bar>
                     < 2 powi 1024 \<longrightarrow>
                   freqIndex freq sampleRate bufferLength =
                     Finite \<lfloor>double (double (freq / double (sampleRate / 2))
                                       * of_int bufferLength)\<rfloor>"
    by (simp add: freqIndex_finite)
  have "processInstrumentData s instrument dataArray bufferLength (lowFreq, highFreq)
             = Inr (s', DetectionResult e (case thr of None \<Rightarrow> False | Some t \<Rightarrow> e > t) c None) \<and>
        ?R = (fst ?R, snd ?R) \<and> snd ?R \<le> length dataArray \<and>
        energy (DetectionResult e (case thr of None \<Rightarrow> False | Some t \<Rightarrow> e > t) c None)
          = bandAverage dataArray (fst ?R) (snd ?R) \<and>
        0 \<le> energy (DetectionResult e (case thr of None \<Rightarrow> False | Some t \<Rightarrow> e > t) c None) \<and>
        energy (DetectionResult e (case thr of None \<Rightarrow> False | Some t \<Rightarrow> e > t) c None) \<le> 1 \<and>
        (snd ?R \<le> fst ?R \<longrightarrow>
           energy (DetectionResult e (case thr of None \<Rightarrow> False | Some t \<Rightarrow> e > t) c None) = 0)"
    using p inside z b by (simp add: e_def)
  with f show ?thesis by blast
qed

lemma lookupThreshold_bands:
  "lookupThreshold ''vocals'' = Inr (Some (double (45/100)))"
  "lookupThreshold ''guitar'' = Inr (Some (double (5/10)))"
  "lookupThreshold ''bass'' = Inr (Some (double (5/10)))"
  "lookupThreshold ''kick'' = Inr (Some (double (6/10)))"
  "lookupThreshold ''snare'' = Inr (Some (double (5/10)))"
  "lookupThreshold ''hihat'' = Inr (Some (double (4/10)))"
  "lookupThreshold ''synth'' = Inr (Some (double (45/100)))"
  by (simp_all add: lookupThreshold_def isPercussion_def drums_def instruments_def)

lemma lookupThreshold_half:
  "lookupThreshold ''guitar'' = Inr (Some (1/2))" "lookupThreshold ''bass'' = Inr (Some (1/2))"
  using lookupThreshold_bands(2,3) by (simp_all add: double_examples)

lemma playing_state:
  "isInitialized playing" "audioContext playing = Some 48000"
  "detectionHistory playing ''vocals'' = Some []"
  "detectionHistory playing ''guitar'' = Some []"
  "detectionHistory playing ''bass'' = Some []"
  "detectionHistory playing ''kick'' = Some []"
  "detectionHistory playing ''snare'' = Some []"
  "detectionHistory playing ''hihat'' = Some []"
  "detectionHistory playing ''synth'' = Some []"
  by (simp_all add: playing_def initializeWithExistingContext_def constructor_def instruments_def)

lemma bandAverage_examples:
  "bandAverage frame16 0 2 = 1/2" "bandAverage (frame16 @ frame16) 0 2 = 1/2"
  "bandAverage frame16 0 0 = 0"
  by (simp_all add: bandAverage_def frame16_def upt_conv_Cons double_examples)

theorem band_energy_extraction_witness:
  "audioContext playing = Some 48000 \<and> (0::real) \<le> 48000 \<and> (0::real) \<le> 300 \<and>
   16 = int (length frame16) \<and>
   detectionHistory playing ''guitar'' = Some [] \<and>
   lookupThreshold ''guitar'' = Inr (Some (1/2)) \<and>
   freqIndex 300 48000 16 = Finite 0 \<and> freqIndex 4000 48000 16 = Finite 2 \<and>
   (\<exists>s' r. processInstrumentData playing ''guitar'' frame16 16 (300, 4000) = Inr (s', r) \<and>
           energy r = 1/2) \<and>
   freqIndex 60 48000 16 = Finite 0 \<and> freqIndex 250 48000 16 = Finite 0 \<and>
   (\<exists>s' r. processInstrumentData playing ''bass'' frame16 16 (60, 250) = Inr (s', r) \<and>
           energy r = 0)"
proof -
  have r: "audioContext playing = Some 48000" by (simp add: playing_state)
  have l: "16 = int (length frame16)" by (simp add: frame16_def)
  have gr: "loopRange (freqIndex 300 48000 16) (freqIndex 4000 48000 16) 16 = (0, 2)"
    by (simp add: freqIndex_examples loopRange_def)
  have br: "loopRange (freqIndex 60 48000 16) (freqIndex 250 48000 16) 16 = (0, 0)"
    by (simp add: freqIndex_examples loopRange_def)
  have p: "(0::real) \<le> 300" "(0::real) \<le> 60" and q: "(0::real) \<le> 48000" by simp_all
  from band_energy_extraction [OF r q p(1) l playing_state(4) lookupThreshold_half(1), of 4000]
  obtain s1 r1 where
    "processInstrumentData playing ''guitar'' frame16 16 (300, 4000) = Inr (s1, r1)"
    "energy r1 = bandAverage frame16 0 2"
    unfolding gr by blast
  with bandAverage_examples(1)
  have g: "\<exists>s' r. processInstrumentData playing ''guitar'' frame16 16 (300, 4000)
           = Inr (s', r) \<and> energy r = 1/2"
    by auto
  from band_energy_extraction [OF r q p(2) l playing_state(5) lookupThreshold_half(2), of 250]
  obtain s2 r2 where
    "processInstrumentData playing ''bass'' frame16 16 (60, 250) = Inr (s2, r2)"
    "energy r2 = bandAverage frame16 0 0"
    unfolding br by blast
  with bandAverage_examples(3)
  have b: "\<exists>s' r. processInstrumentData playing ''bass'' frame16 16 (60, 250)
           = Inr (s', r) \<and> energy r = 0"
    by auto
  from r q p(1) l playing_state(4) lookupThreshold_half(1) freqIndex_examples g b
  show ?thesis by blast
qed

subsection \<open>Ticks\<close>

lemma activityThresholds_lookup:
  "list_all (\<lambda>(name, t). lookupThreshold name = Inr (Some t)) activityThresholds"
  by (simp add: activityThresholds_def lookupThreshold_bands)

lemma lookupThreshold_table:
  assumes "map_of activityThresholds name = Some t"
  shows "lookupThreshold name = Inr (Some t)"
proof -
  from assms have "(name, t) \<in> set activityThresholds" by (rule map_of_SomeD)
  with activityThresholds_lookup show ?thesis
    unfolding list_all_iff by fast
qed

lemma activityThresholds_names: "map fst activityThresholds = bandNames"
  by (simp add: activityThresholds_def bandNames_def)

lemma bandNames_table:
  assumes "name \<in> set bandNames"
  shows "\<exists>t. map_of activityThresholds name = Some t"
proof -
  from assms have "name \<in> fst ` set activityThresholds"
    unfolding activityThresholds_names [symmetric] by simp
  then have "map_of activityThresholds name \<noteq> None"
    by (simp add: map_of_eq_None_iff)
  then show ?thesis by blast
qed

lemma processInstrumentData_call:
  assumes "ready s" and "name \<in> set bandNames" and "0 \<le> fst band"
  shows "\<exists>s' r. processInstrumentData s name frame (int (length frame)) band = Inr (s', r) \<and>
           ready s' \<and> isInitialized s' = isInitialized s \<and>
           audioContext s' = audioContext s \<and> thresholded name r"
proof -
  from assms(1) obtain sampleRate where
    ctx: "audioContext s = Some sampleRate" and rate: "0 < sampleRate"
    by (auto simp: ready_def split: option.splits)
  from assms(1) have all: "\<forall>n \<in> set bandNames. detectionHistory s n \<noteq> None"
    by (simp add: ready_def list_all_iff)
  from all assms(2) obtain h where h: "detectionHistory s name = Some h" by auto
  from bandNames_table [OF assms(2)] obtain t where
    t: "map_of activityThresholds name = Some t" by blast
  have bl: "0 \<le> int (length frame)" by simp
  from rate have rate0: "0 \<le> sampleRate" by simp
  have inside: "snd (loopRange (freqIndex (fst band) sampleRate (int (length frame)))
                       (freqIndex (snd band) sampleRate (int (length frame)))
                       (int (length frame))) \<le> length frame"
    using loopRange_le [OF bl] by simp
  from processInstrumentData_Inr [OF ctx rate0 assms(3) bl inside h lookupThreshold_table [OF t]]
  obtain s' e c where
    p: "processInstrumentData s name frame (int (length frame)) (fst band, snd band) =
          Inr (s', DetectionResult e (e > t) c None)"
    and s': "\<exists>kept. s' = s\<lparr>detectionHistory := (detectionHistory s)(name \<mapsto> kept)\<rparr>"
    by (simp del: length_append) blast
  from s' ctx rate all have "ready s'" "isInitialized s' = isInitialized s"
    "audioContext s' = audioContext s"
    by (auto simp: ready_def list_all_iff)
  moreover have "thresholded name (DetectionResult e (e > t) c None)"
    by (simp add: thresholded_def t)
  ultimately show ?thesis using p by auto
qed

lemma processDrums_ok:
  assumes "ready s"
    and "\<forall>(name, cfg) \<in> set kit. name \<in> set bandNames \<and> 0 \<le> fst (freqRange cfg)"
    and "\<forall>name r. result name = Some r \<longrightarrow> thresholded name r"
  shows "\<exists>s' result'. processDrums s frame (int (length frame)) kit result = Inr (s', result') \<and>
           ready s' \<and> isInitialized s' = isInitialized s \<and>
           audioContext s' = audioContext s \<and>
           (\<forall>name r. result' name = Some r \<longrightarrow> thresholded name r) \<and>
           dom result' = dom result \<union> fst ` set kit"
  using assms
proof (induction kit arbitrary: s result)
  case Nil
  then show ?case by simp
next
  case (Cons a kit)
  obtain name cfg where a: "a = (name, cfg)" by (cases a)
  from Cons.prems(2) a have n: "name \<in> set bandNames" "0 \<le> fst (freqRange cfg)"
    and rest: "\<forall>(name, cfg) \<in> set kit. name \<in> set bandNames \<and> 0 \<le> fst (freqRange cfg)"
    by auto
  from processInstrumentData_call [OF Cons.prems(1) n, of frame] obtain s1 r where
    c: "processInstrumentData s name frame (int (length frame)) (freqRange cfg) = Inr (s1, r)"
    and s1: "ready s1" "isInitialized s1 = isInitialized s"
        "audioContext s1 = audioContext s" and r: "thresholded name r"
    by blast
  from Cons.prems(3) r have
    "\<forall>n r'. (result(name \<mapsto> r)) n = Some r' \<longrightarrow> thresholded n r'" by auto
  from Cons.IH [OF s1(1) rest this] obtain s' result' where
    "processDrums s1 frame (int (length frame)) kit (result(name \<mapsto> r)) = Inr (s', result')"
    "ready s'" "isInitialized s' = isInitialized s1" "audioContext s' = audioContext s1"
    "\<forall>name r. result' name = Some r \<longrightarrow> thresholded name r"
    "dom result' = dom (result(name \<mapsto> r)) \<union> fst ` set kit"
    by blast
  with c s1 a show ?case by auto
qed

lemma drums_entries:
  "\<forall>(name, cfg) \<in> set drums. name \<in> set bandNames \<and> 0 \<le> fst (freqRange cfg)"
  by (simp add: drums_def bandNames_def)

lemma processInstruments_ok:
  assumes "ready s"
    and "\<forall>(name, entry) \<in> set es. name = ''drums'' \<or>
           (\<exists>cfg. entry = Instrument cfg \<and> name \<in> set bandNames \<and> 0 \<le> fst (freqRange cfg))"
    and "\<forall>name r. result name = Some r \<longrightarrow> thresholded name r"
  shows "\<exists>s' result'. processInstruments s frame (int (length frame)) es result = Inr (s', result') \<and>
           ready s' \<and> isInitialized s' = isInitialized s \<and>
           audioContext s' = audioContext s \<and>
           (\<forall>name r. result' name = Some r \<longrightarrow> thresholded name r) \<and>
           dom result' = dom result \<union> (\<Union>x \<in> set es. entryKeys x)"
  using assms
proof (induction es arbitrary: s result)
  case Nil
  then show ?case by simp
next
  case (Cons a es)
  obtain name entry where a: "a = (name, entry)" by (cases a)
  from Cons.prems(2) have rest: "\<forall>(name, entry) \<in> set es. name = ''drums'' \<or>
           (\<exists>cfg. entry = Instrument cfg \<and> name \<in> set bandNames \<and> 0 \<le> fst (freqRange cfg))"
    by auto
  show ?case
  proof (cases "name = ''drums''")
    case True
    from processDrums_ok [OF Cons.prems(1) drums_entries Cons.prems(3), of frame]
    obtain s1 result1 where
      d: "processDrums s frame (int (length frame)) drums result = Inr (s1, result1)"
      and s1: "ready s1" "isInitialized s1 = isInitialized s"
        "audioContext s1 = audioContext s"
      and r1: "\<forall>name r. result1 name = Some r \<longrightarrow> thresholded name r"
      and dom1: "dom result1 = dom result \<union> fst ` set drums"
      by blast
    from Cons.IH [OF s1(1) rest r1] obtain s' result' where
      "processInstruments s1 frame (int (length frame)) es result1 = Inr (s', result')"
      "ready s'" "isInitialized s' = isInitialized s1" "audioContext s' = audioContext s1"
      "\<forall>name r. result' name = Some r \<longrightarrow> thresholded name r"
      "dom result' = dom result1 \<union> (\<Union>x \<in> set es. entryKeys x)"
      by blast
    with d s1 dom1 a True show ?thesis by auto
  next
    case False
    with Cons.prems(2) a obtain cfg where e: "entry = Instrument cfg"
      and n: "name \<in> set bandNames" "0 \<le> fst (freqRange cfg)" by auto
    from processInstrumentData_call [OF Cons.prems(1) n, of frame] obtain s1 r where
      c: "processInstrumentData s name frame (int (length frame)) (freqRange cfg) = Inr (s1, r)"
      and s1: "ready s1" "isInitialized s1 = isInitialized s"
        "audioContext s1 = audioContext s" and r: "thresholded name r"
      by blast
    from Cons.prems(3) r have
      "\<forall>n r'. (result(name \<mapsto> r)) n = Some r' \<longrightarrow> thresholded n r'" by auto
    from Cons.IH [OF s1(1) rest this] obtain s' result' where
      "processInstruments s1 frame (int (length frame)) es (result(name \<mapsto> r)) = Inr (s', result')"
      "ready s'" "isInitialized s' = isInitialized s1" "audioContext s' = audioContext s1"
      "\<forall>name r. result' name = Some r \<longrightarrow> thresholded name r"
      "dom result' = dom (result(name \<mapsto> r)) \<union> (\<Union>x \<in> set es. entryKeys x)"
      by blast
    with c s1 a e False show ?thesis by auto
  qed
qed


lemma instruments_entries:
  "\<forall>(name, entry) \<in> set instruments. name = ''drums'' \<or>
     (\<exists>cfg. entry = Instrument cfg \<and> name \<in> set bandNames \<and> 0 \<le> fst (freqRange cfg))"
  by (simp add: instruments_def bandNames_def)

lemma instruments_keys: "(\<Union>x \<in> set instruments. entryKeys x) = set bandNames"
  by (simp add: instruments_def drums_def bandNames_def insert_commute)

lemma thresholded_fields:
  "energy r' = energy r \<Longrightarrow> active r' = active r \<Longrightarrow> thresholded name r \<Longrightarrow>
     thresholded name r'"
  by (simp add: thresholded_def split: option.splits)

lemma processOverlaps_thresholded:
  assumes "name \<in> set bandNames" and "result name = Some r" and "thresholded name r"
  shows "\<exists>r'. processOverlaps result name = Some r' \<and> thresholded name r'"
proof -
  from assms(1) have nd: "name \<noteq> ''drums''" by (auto simp: bandNames_def)
  show ?thesis
  proof (cases "name = ''guitar''")
    case False
    with nd assms show ?thesis
      by (simp add: processOverlaps_not_drums suppressed_other)
  next
    case True
    have "processOverlaps result ''guitar'' = suppressed result ''guitar''"
      by (simp add: processOverlaps_not_drums)
    moreover from assms(2) True obtain r' where
      "suppressed result ''guitar'' = Some r'" "energy r' = energy r" "active r' = active r"
      by (cases "result ''bass''") (auto simp: suppressed_guitar)
    ultimately show ?thesis
      using True assms(3) thresholded_fields [of r' r name] by auto
  qed
qed

lemma getInstrumentEnergy_tick:
  assumes "isInitialized s" and "audioContext s = Some sampleRate" and "0 < sampleRate"
    and "\<forall>name \<in> set bandNames. detectionHistory s name \<noteq> None"
  shows "\<exists>s' result. getInstrumentEnergy s frame = Inr (s', result) \<and>
           isInitialized s' \<and> audioContext s' = Some sampleRate \<and>
           (\<forall>name \<in> set bandNames. detectionHistory s' name \<noteq> None) \<and>
           (\<forall>(name, t) \<in> set activityThresholds.
              \<exists>r. result name = Some r \<and> active r = (energy r > t))"
proof -
  from assms(2,3,4) have rdy: "ready s" by (simp add: ready_def list_all_iff)
  have e: "\<forall>name r. Map.empty name = Some r \<longrightarrow> thresholded name r" by simp
  from processInstruments_ok [OF rdy instruments_entries e, of frame]
  obtain s' result where
    p: "processInstruments s frame (int (length frame)) instruments Map.empty = Inr (s', result)"
    and s': "ready s'" "isInitialized s' = isInitialized s" "audioContext s' = audioContext s"
    and r: "\<forall>name r. result name = Some r \<longrightarrow> thresholded name r"
    and d: "dom result = set bandNames"
    unfolding instruments_keys by auto
  from p assms(1) have g: "getInstrumentEnergy s frame = Inr (s', processOverlaps result)"
    by (simp add: getInstrumentEnergy_def)
  have "\<exists>r'. processOverlaps result name = Some r' \<and> active r' = (energy r' > t)"
    if nt: "(name, t) \<in> set activityThresholds" for name t
  proof -
    from nt have n: "name \<in> set bandNames"
      unfolding activityThresholds_names [symmetric] by force
    with d obtain r0 where r0: "result name = Some r0" by blast
    with r have "thresholded name r0" by blast
    with processOverlaps_thresholded [of name result r0] n r0 obtain r' where
      r': "processOverlaps result name = Some r'" "thresholded name r'" by blast
    have "distinct (map fst activityThresholds)"
      by (simp add: activityThresholds_def)
    from this nt have "map_of activityThresholds name = Some t" by (rule map_of_is_SomeI)
    with r' show ?thesis by (simp add: thresholded_def)
  qed
  with g s' assms(1,2) show ?thesis
    by (auto simp: ready_def list_all_iff)
qed

text \<open>
  C1. From an initialized processor with a positive sample rate and a history for each of
  the seven bands (as the constructor creates them), every tick of a run returns a result,
  and in every tick's result each configured band (vocals, guitar, bass, kick, snare,
  hihat, synth) has an entry whose active flag is true exactly when its energy exceeds that
  band's own threshold.
\<close>

theorem active_iff_above_threshold:
  assumes "isInitialized s" and "audioContext s = Some sampleRate" and "0 < sampleRate"
    and "\<forall>name \<in> set bandNames. detectionHistory s name \<noteq> None"
  shows "\<exists>s' results. ticks s frames = Inr (s', results) \<and>
           length results = length frames \<and>
           (\<forall>result \<in> set results. \<forall>(name, t) \<in> set activityThresholds.
              \<exists>r. result name = Some r \<and> active r = (energy r > t))"
  using assms
proof (induction frames arbitrary: s)
  case Nil
  then show ?case by simp
next
  case (Cons frame frames)
  from getInstrumentEnergy_tick [OF Cons.prems, of frame] obtain s1 result where
    g: "getInstrumentEnergy s frame = Inr (s1, result)"
    and s1: "isInitialized s1" "audioContext s1 = Some sampleRate"
      "\<forall>name \<in> set bandNames. detectionHistory s1 name \<noteq> None"
    and r: "\<forall>(name, t) \<in> set activityThresholds.
              \<exists>r. result name = Some r \<and> active r = (energy r > t)"
    by blast
  from Cons.IH [OF s1(1,2) Cons.prems(3) s1(3)] obtain s' results where
    t: "ticks s1 frames = Inr (s', results)" "length results = length frames"
    and rs: "\<forall>result \<in> set results. \<forall>(name, t) \<in> set activityThresholds.
              \<exists>r. result name = Some r \<and> active r = (energy r > t)"
    by blast
  from g t have "ticks s (frame # frames) = Inr (s', result # results)" by simp
  moreover from t have "length (result # results) = length (frame # frames)" by simp
  moreover from r rs have "\<forall>result \<in> set (result # results).
      \<forall>(name, t) \<in> set activityThresholds.
        \<exists>r. result name = Some r \<and> active r = (energy r > t)" by simp
  ultimately show ?case by blast
qed

theorem active_iff_above_threshold_witness:
  "isInitialized playing \<and> audioContext playing = Some 48000 \<and> (0::real) < 48000 \<and>
   list_all (\<lambda>name. detectionHistory playing name \<noteq> None) bandNames \<and>
   (\<exists>s' results. ticks playing [frame16, frame16] = Inr (s', results) \<and>
      length results = 2 \<and>
      list_all (\<lambda>result.
          list_all (\<lambda>(name, t). \<exists>r. result name = Some r \<and> active r = (energy r > t))
            activityThresholds) results)"
proof -
  have i: "isInitialized playing" and r: "audioContext playing = Some 48000"
    by (simp_all add: playing_state)
  have h: "\<forall>name \<in> set bandNames. detectionHistory playing name \<noteq> None"
    by (simp add: bandNames_def playing_state)
  have q: "(0::real) < 48000" by simp
  from active_iff_above_threshold [OF i r q h, of "[frame16, frame16]"] obtain s' results where
    "ticks playing [frame16, frame16] = Inr (s', results)" "length results = 2"
    "\<forall>result \<in> set results. \<forall>(name, t) \<in> set activityThresholds.
              \<exists>r. result name = Some r \<and> active r = (energy r > t)"
    by (auto simp del: ticks.simps)
  with i r q h show ?thesis unfolding list_all_iff by blast
qed




subsection \<open>Batch rule layer\<close>

lemma detectInstruments_Inr:
  assumes "bandEnergy fb ''sub_bass'' = Inr sb" and "bandEnergy fb ''bass'' = Inr b"
    and "bandEnergy fb ''low_mids'' = Inr lm" and "bandEnergy fb ''mids'' = Inr m"
    and "bandEnergy fb ''high_mids'' = Inr hm" and "bandEnergy fb ''highs'' = Inr h"
  shows "detectInstruments fb stems = Inr
    [''vocals'' \<mapsto> \<lparr>detected = m > 7/10, detection_confidence = (if m > 7/10 then m else 0)\<rparr>,
     ''guitar'' \<mapsto> \<lparr>detected = lm > 6/10 \<and> m > 5/10,
                  detection_confidence = (if lm > 6/10 \<and> m > 5/10 then (lm + m) / 2 else 0)\<rparr>,
     ''bass''   \<mapsto> \<lparr>detected = b > 6/10, detection_confidence = (if b > 6/10 then b else 0)\<rparr>,
     ''drums''  \<mapsto> \<lparr>detected = sb > 6/10 \<or> h > 7/10,
                  detection_confidence = (if sb > 6/10 \<or> h > 7/10 then max sb h else 0)\<rparr>,
     ''synth''  \<mapsto> \<lparr>detected = hm > 7/10 \<and> h > 6/10,
                  detection_confidence = (if hm > 7/10 \<and> h > 6/10 then (hm + h) / 2 else 0)\<rparr>,
     ''piano''  \<mapsto> \<lparr>detected = False, detection_confidence = 0\<rparr>]"
proof -
  have "detectInstruments fb stems = Inr
     (let d1 = (if b > 6/10
                then initialDetection(''bass'' \<mapsto> \<lparr>detected = True, detection_confidence = b\<rparr>)
                else initialDetection);
          d2 = (if sb > 6/10 \<or> h > 7/10
                then d1(''drums'' \<mapsto> \<lparr>detected = True, detection_confidence = max sb h\<rparr>)
                else d1);
          d3 = (if m > 7/10
                then d2(''vocals'' \<mapsto> \<lparr>detected = True, detection_confidence = m\<rparr>)
                else d2);
          d4 = (if lm > 6/10 \<and> m > 5/10
                then d3(''guitar'' \<mapsto> \<lparr>detected = True, detection_confidence = (lm + m) / 2\<rparr>)
                else d3);
          d5 = (if hm > 7/10 \<and> h > 6/10
                then d4(''synth'' \<mapsto> \<lparr>detected = True, detection_confidence = (hm + h) / 2\<rparr>)
                else d4)
      in d5)"
    unfolding detectInstruments_def assms by (simp only: sum.case Let_def)
  also have "\<dots> = Inr
    [''vocals'' \<mapsto> \<lparr>detected = m > 7/10, detection_confidence = (if m > 7/10 then m else 0)\<rparr>,
     ''guitar'' \<mapsto> \<lparr>detected = lm > 6/10 \<and> m > 5/10,
                  detection_confidence = (if lm > 6/10 \<and> m > 5/10 then (lm + m) / 2 else 0)\<rparr>,
     ''bass''   \<mapsto> \<lparr>detected = b > 6/10, detection_confidence = (if b > 6/10 then b else 0)\<rparr>,
     ''drums''  \<mapsto> \<lparr>detected = sb > 6/10 \<or> h > 7/10,
                  detection_confidence = (if sb > 6/10 \<or> h > 7/10 then max sb h else 0)\<rparr>,
     ''synth''  \<mapsto> \<lparr>detected = hm > 7/10 \<and> h > 6/10,
                  detection_confidence = (if hm > 7/10 \<and> h > 6/10 then (hm + h) / 2 else 0)\<rparr>,
     ''piano''  \<mapsto> \<lparr>detected = False, detection_confidence = 0\<rparr>]"
    unfolding Let_def initialDetection_def
    by (intro arg_cong [where f = Inr] ext) simp
  finally show ?thesis .
qed

lemma detectInstruments_reads:
  assumes "detectInstruments fb stems = Inr d"
  shows "\<exists>sb b lm m hm h.
           bandEnergy fb ''sub_bass'' = Inr sb \<and> bandEnergy fb ''bass'' = Inr b \<and>
           bandEnergy fb ''low_mids'' = Inr lm \<and> bandEnergy fb ''mids'' = Inr m \<and>
           bandEnergy fb ''high_mids'' = Inr hm \<and> bandEnergy fb ''highs'' = Inr h"
proof -
  obtain b where b: "bandEnergy fb ''bass'' = Inr b"
    using assms by (cases "bandEnergy fb ''bass''") (simp_all add: detectInstruments_def)
  obtain sb where sb: "bandEnergy fb ''sub_bass'' = Inr sb"
    using assms b
    by (cases "bandEnergy fb ''sub_bass''") (simp_all add: detectInstruments_def Let_def)
  obtain h where h: "bandEnergy fb ''highs'' = Inr h"
    using assms b sb
    by (cases "bandEnergy fb ''highs''") (simp_all add: detectInstruments_def Let_def)
  obtain m where m: "bandEnergy fb ''mids'' = Inr m"
    using assms b sb h
    by (cases "bandEnergy fb ''mids''") (simp_all add: detectInstruments_def Let_def)
  obtain lm where lm: "bandEnergy fb ''low_mids'' = Inr lm"
    using assms b sb h m
    by (cases "bandEnergy fb ''low_mids''") (simp_all add: detectInstruments_def Let_def)
  obtain hm where hm: "bandEnergy fb ''high_mids'' = Inr hm"
    using assms b sb h m lm
    by (cases "bandEnergy fb ''high_mids''") (simp_all add: detectInstruments_def Let_def)
  from b sb h m lm hm show ?thesis by blast
qed

lemma bandEnergy_sixBands:
  "bandEnergy (sixBands sb b lm m hm h) ''sub_bass'' = Inr sb"
  "bandEnergy (sixBands sb b lm m hm h) ''bass'' = Inr b"
  "bandEnergy (sixBands sb b lm m hm h) ''low_mids'' = Inr lm"
  "bandEnergy (sixBands sb b lm m hm h) ''mids'' = Inr m"
  "bandEnergy (sixBands sb b lm m hm h) ''high_mids'' = Inr hm"
  "bandEnergy (sixBands sb b lm m hm h) ''highs'' = Inr h"
  by (simp_all add: bandEnergy_def sixBands_def)

text \<open>
  C9. Given the six band energies, the rule layer flags bass when the bass energy exceeds
  0.6, with that energy as confidence; drums when sub_bass exceeds 0.6 or highs exceeds 0.7,
  with the larger of the two as confidence; vocals when mids exceeds 0.7, with mids as
  confidence; guitar when low_mids exceeds 0.6 and mids exceeds 0.5, with their average;
  synth when high_mids exceeds 0.7 and highs exceeds 0.6, with their average. An
  instrument that is not flagged keeps confidence 0. In particular the energies sub_bass
  0.65, bass 0.3, low_mids 0.2, mids 0.75, high_mids 0.2, highs 0.2 give drums with
  confidence 0.65, vocals with confidence 0.75, and no other instrument.
\<close>

theorem batch_rules:
  assumes "bandEnergy fb ''sub_bass'' = Inr sb" and "bandEnergy fb ''bass'' = Inr b"
    and "bandEnergy fb ''low_mids'' = Inr lm" and "bandEnergy fb ''mids'' = Inr m"
    and "bandEnergy fb ''high_mids'' = Inr hm" and "bandEnergy fb ''highs'' = Inr h"
  shows "\<exists>d. detectInstruments fb stems = Inr d \<and>
           d ''bass'' = Some \<lparr>detected = b > 6/10,
                                detection_confidence = (if b > 6/10 then b else 0)\<rparr> \<and>
           d ''drums'' = Some \<lparr>detected = sb > 6/10 \<or> h > 7/10,
              detection_confidence = (if sb > 6/10 \<or> h > 7/10 then max sb h else 0)\<rparr> \<and>
           d ''vocals'' = Some \<lparr>detected = m > 7/10,
                                  detection_confidence = (if m > 7/10 then m else 0)\<rparr> \<and>
           d ''guitar'' = Some \<lparr>detected = lm > 6/10 \<and> m > 5/10,
              detection_confidence = (if lm > 6/10 \<and> m > 5/10 then (lm + m) / 2 else 0)\<rparr> \<and>
           d ''synth'' = Some \<lparr>detected = hm > 7/10 \<and> h > 6/10,
              detection_confidence = (if hm > 7/10 \<and> h > 6/10 then (hm + h) / 2 else 0)\<rparr>"
  unfolding detectInstruments_Inr [OF assms] by simp

theorem batch_rules_witness:
  "\<exists>d. detectInstruments (sixBands (65/100) (3/10) (2/10) (75/100) (2/10) (2/10)) None = Inr d \<and>
        d ''bass'' = Some \<lparr>detected = False, detection_confidence = 0\<rparr> \<and>
        d ''drums'' = Some \<lparr>detected = True, detection_confidence = 65/100\<rparr> \<and>
        d ''vocals'' = Some \<lparr>detected = True, detection_confidence = 75/100\<rparr> \<and>
        d ''guitar'' = Some \<lparr>detected = False, detection_confidence = 0\<rparr> \<and>
        d ''synth'' = Some \<lparr>detected = False, detection_confidence = 0\<rparr>"
  using batch_rules [OF bandEnergy_sixBands, of "65/100" "3/10" "2/10" "75/100" "2/10" "2/10" None]
  by simp

text \<open>
  C10. Whatever the input, an output of the rule layer holds a \<^verbatim>\<open>piano\<close> entry that is
  not detected and has confidence 0; and there is an output whenever the six bands are
  present.
\<close>

theorem piano_never_detected:
  "(\<forall>d. detectInstruments fb stems = Inr d \<longrightarrow>
        d ''piano'' = Some \<lparr>detected = False, detection_confidence = 0\<rparr>) \<and>
   ((\<forall>name \<in> set [''sub_bass'', ''bass'', ''low_mids'', ''mids'', ''high_mids'', ''highs''].
        fb name \<noteq> None) \<longrightarrow>
      (\<exists>d. detectInstruments fb stems = Inr d \<and>
           d ''piano'' = Some \<lparr>detected = False, detection_confidence = 0\<rparr>))"
proof (intro conjI allI impI)
  fix d assume d: "detectInstruments fb stems = Inr d"
  from detectInstruments_reads [OF d] obtain sb b lm m hm h where
    "bandEnergy fb ''sub_bass'' = Inr sb" "bandEnergy fb ''bass'' = Inr b"
    "bandEnergy fb ''low_mids'' = Inr lm" "bandEnergy fb ''mids'' = Inr m"
    "bandEnergy fb ''high_mids'' = Inr hm" "bandEnergy fb ''highs'' = Inr h"
    by blast
  from detectInstruments_Inr [OF this, of stems] d
  show "d ''piano'' = Some \<lparr>detected = False, detection_confidence = 0\<rparr>"
    by auto
next
  assume "\<forall>name \<in> set [''sub_bass'', ''bass'', ''low_mids'', ''mids'', ''high_mids'', ''highs''].
        fb name \<noteq> None"
  then have
    "bandEnergy fb ''sub_bass'' = Inr (band_energy (the (fb ''sub_bass'')))"
    "bandEnergy fb ''bass'' = Inr (band_energy (the (fb ''bass'')))"
    "bandEnergy fb ''low_mids'' = Inr (band_energy (the (fb ''low_mids'')))"
    "bandEnergy fb ''mids'' = Inr (band_energy (the (fb ''mids'')))"
    "bandEnergy fb ''high_mids'' = Inr (band_energy (the (fb ''high_mids'')))"
    "bandEnergy fb ''highs'' = Inr (band_energy (the (fb ''highs'')))"
    by (auto simp: bandEnergy_def)
  from detectInstruments_Inr [OF this, of stems]
  show "\<exists>d. detectInstruments fb stems = Inr d \<and>
           d ''piano'' = Some \<lparr>detected = False, detection_confidence = 0\<rparr>"
    by simp
qed

theorem piano_never_detected_witness:
  "list_all (\<lambda>name. sixBands 1 1 1 1 1 1 name \<noteq> None)
     [''sub_bass'', ''bass'', ''low_mids'', ''mids'', ''high_mids'', ''highs''] \<and>
   (\<exists>d. detectInstruments (sixBands 1 1 1 1 1 1) None = Inr d \<and>
        d ''piano'' = Some \<lparr>detected = False, detection_confidence = 0\<rparr>)"
proof -
  have a: "\<forall>name \<in> set [''sub_bass'', ''bass'', ''low_mids'', ''mids'', ''high_mids'', ''highs''].
             sixBands 1 1 1 1 1 1 name \<noteq> None"
    by (simp add: sixBands_def)
  from piano_never_detected [of "sixBands 1 1 1 1 1 1" None, THEN conjunct2] a
  have "\<exists>d. detectInstruments (sixBands 1 1 1 1 1 1) None = Inr d \<and>
        d ''piano'' = Some \<lparr>detected = False, detection_confidence = 0\<rparr>"
    by (rule mp)
  with a show ?thesis by (simp add: list_all_iff)
qed

end
